theory Spec2Isabelle
  imports Main
begin

section \<open>Values, exceptions and the world the services run in\<close>

text \<open>
  The services exchange JSON. A field of an event or of a stored reminder is a scalar
  (\<open>jval\<close>); a Python \<open>dict\<close> is an association list in insertion order, because
  \<open>cancel_task_reminders\<close> reads \<open>list(reminder.keys())[0]\<close>. The state store holds what
  \<open>json.dumps\<close> wrote and \<open>json.loads\<close> reads back: an object or a list of keys.
\<close>

datatype jval = JNone | JBool bool | JInt int | JStr string

type_synonym dict = "(string \<times> jval) list"

datatype sval = SObj dict | SIds "string list"

datatype exn = ValueError | OverflowError | KeyError | AttributeError | TypeError | ClientError
  | ConnectionClosed

text \<open>Python's truth value of a scalar (\<open>if x:\<close>, \<open>all([...])\<close>).\<close>

fun truthy :: "jval \<Rightarrow> bool" where
  "truthy JNone = False"
| "truthy (JBool b) = b"
| "truthy (JInt i) = (i \<noteq> 0)"
| "truthy (JStr s) = (s \<noteq> [])"

text \<open>\<open>d.get(k)\<close>, \<open>d[k] = v\<close> and \<open>d.update(u)\<close> on insertion-ordered dicts.\<close>

definition dict_get :: "dict \<Rightarrow> string \<Rightarrow> jval option" where
  "dict_get d k = map_of d k"

fun dict_set :: "dict \<Rightarrow> string \<Rightarrow> jval \<Rightarrow> dict" where
  "dict_set [] k v = [(k, v)]"
| "dict_set ((k', v') # d) k v = (if k' = k then (k, v) # d else (k', v') # dict_set d k v)"

fun dict_update :: "dict \<Rightarrow> dict \<Rightarrow> dict" where
  "dict_update d [] = d"
| "dict_update d ((k, v) # u) = dict_update (dict_set d k v) u"

subsection \<open>Formatting\<close>

fun str_nat :: "nat \<Rightarrow> string" where
  "str_nat n = (if n < 10 then [''0123456789'' ! n]
                else str_nat (n div 10) @ [''0123456789'' ! (n mod 10)])"

declare str_nat.simps [simp del]

definition str_int :: "int \<Rightarrow> string" where
  "str_int i = (if i < 0 then ''-'' @ str_nat (nat (- i)) else str_nat (nat i))"

text \<open>\<open>str(x)\<close> as an f-string formats a scalar.\<close>

fun py_str :: "jval \<Rightarrow> string" where
  "py_str JNone = ''None''"
| "py_str (JBool b) = (if b then ''True'' else ''False'')"
| "py_str (JInt i) = str_int i"
| "py_str (JStr s) = s"

definition zfill :: "nat \<Rightarrow> string \<Rightarrow> string" where
  "zfill n s = replicate (n - length s) (CHR ''0'') @ s"

definition lower_char :: "char \<Rightarrow> char" where
  "lower_char c =
     (case map_of (zip ''ABCDEFGHIJKLMNOPQRSTUVWXYZ'' ''abcdefghijklmnopqrstuvwxyz'') c of
        Some l \<Rightarrow> l | None \<Rightarrow> c)"

definition lower :: "string \<Rightarrow> string" where
  "lower s = map lower_char s"

subsection \<open>Dates\<close>

text \<open>
  A \<open>datetime\<close> object of the standard library. The library only builds valid ones
  (\<open>valid_datetime\<close>): years 1 to 9999, and a day that exists in its month.
\<close>

record datetime =
  year :: int
  month :: int
  day :: int
  hour :: int
  minute :: int
  second :: int
  microsecond :: int

definition is_leap :: "int \<Rightarrow> bool" where
  "is_leap y = (y mod 4 = 0 \<and> (y mod 100 \<noteq> 0 \<or> y mod 400 = 0))"

definition days_in_month :: "int \<Rightarrow> int \<Rightarrow> int" where
  "days_in_month y m =
     (if m = 2 then (if is_leap y then 29 else 28)
      else if m = 4 \<or> m = 6 \<or> m = 9 \<or> m = 11 then 30 else 31)"

definition valid_datetime :: "datetime \<Rightarrow> bool" where
  "valid_datetime dt =
     (1 \<le> year dt \<and> year dt \<le> 9999 \<and> 1 \<le> month dt \<and> month dt \<le> 12 \<and>
      1 \<le> day dt \<and> day dt \<le> days_in_month (year dt) (month dt) \<and>
      0 \<le> hour dt \<and> hour dt < 24 \<and> 0 \<le> minute dt \<and> minute dt < 60 \<and>
      0 \<le> second dt \<and> second dt < 60 \<and> 0 \<le> microsecond dt \<and> microsecond dt < 1000000)"

text \<open>
  \<open>dt.replace(year=y, month=m, day=d)\<close> builds a new object and raises \<open>ValueError\<close>
  when the date does not exist.
\<close>

definition dt_replace :: "datetime \<Rightarrow> int \<Rightarrow> int \<Rightarrow> int \<Rightarrow> exn + datetime" where
  "dt_replace dt y m d =
     (if 1 \<le> y \<and> y \<le> 9999 \<and> 1 \<le> m \<and> m \<le> 12 \<and> 1 \<le> d \<and> d \<le> days_in_month y m
      then Inr (dt\<lparr>year := y, month := m, day := d\<rparr>)
      else Inl ValueError)"

text \<open>
  \<open>dt + timedelta(days=n)\<close>: the calendar day that follows, \<open>n\<close> times, with the time
  of day kept; \<open>OverflowError\<close> past the year 9999.
\<close>

definition next_day :: "datetime \<Rightarrow> exn + datetime" where
  "next_day dt =
     (if day dt < days_in_month (year dt) (month dt) then Inr (dt\<lparr>day := day dt + 1\<rparr>)
      else if month dt < 12 then Inr (dt\<lparr>month := month dt + 1, day := 1\<rparr>)
      else if year dt < 9999 then Inr (dt\<lparr>year := year dt + 1, month := 1, day := 1\<rparr>)
      else Inl OverflowError)"

fun plus_days :: "datetime \<Rightarrow> nat \<Rightarrow> exn + datetime" where
  "plus_days dt 0 = Inr dt"
| "plus_days dt (Suc n) = (case next_day dt of Inl e \<Rightarrow> Inl e | Inr dt' \<Rightarrow> plus_days dt' n)"

text \<open>Comparison of two datetimes of one time zone: field by field.\<close>

fun lex_le :: "int list \<Rightarrow> int list \<Rightarrow> bool" where
  "lex_le [] ys = True"
| "lex_le (x # xs) [] = False"
| "lex_le (x # xs) (y # ys) = (x < y \<or> (x = y \<and> lex_le xs ys))"

definition dt_fields :: "datetime \<Rightarrow> int list" where
  "dt_fields dt = [year dt, month dt, day dt, hour dt, minute dt, second dt, microsecond dt]"

definition dt_ge :: "datetime \<Rightarrow> datetime \<Rightarrow> bool" where
  "dt_ge a b = lex_le (dt_fields b) (dt_fields a)"

definition pad :: "nat \<Rightarrow> int \<Rightarrow> string" where
  "pad n i = zfill n (str_int i)"

text \<open>\<open>strftime('%Y%m%d%H%M%S')\<close>, \<open>strftime('%Y%m%d%H%M%S%f')\<close> and \<open>isoformat()\<close>.\<close>

definition strftime_seconds :: "datetime \<Rightarrow> string" where
  "strftime_seconds dt =
     pad 4 (year dt) @ pad 2 (month dt) @ pad 2 (day dt) @
     pad 2 (hour dt) @ pad 2 (minute dt) @ pad 2 (second dt)"

definition strftime_micros :: "datetime \<Rightarrow> string" where
  "strftime_micros dt = strftime_seconds dt @ pad 6 (microsecond dt)"

definition isoformat :: "datetime \<Rightarrow> string" where
  "isoformat dt =
     pad 4 (year dt) @ ''-'' @ pad 2 (month dt) @ ''-'' @ pad 2 (day dt) @ ''T'' @
     pad 2 (hour dt) @ '':'' @ pad 2 (minute dt) @ '':'' @ pad 2 (second dt) @
     (if microsecond dt = 0 then [] else ''.'' @ pad 6 (microsecond dt))"

text \<open>
  A date that an event carries as an ISO string is represented by what
  \<open>datetime.fromisoformat\<close> makes of it: the instant, \<open>Malformed\<close> when parsing raises
  \<open>ValueError\<close>, \<open>Blank\<close> for the empty string (which is also false as a condition).
\<close>

datatype stamp = Instant datetime | Malformed | Blank

fun fromisoformat :: "stamp \<Rightarrow> exn + datetime" where
  "fromisoformat (Instant dt) = Inr dt"
| "fromisoformat Malformed = Inl ValueError"
| "fromisoformat Blank = Inl ValueError"

section \<open>The collaborators: state store, clock, task service, message bus\<close>

text \<open>
  The event \<open>task_data\<close> of a completion, with the fields the docstring of
  \<open>process_completed_task\<close> lists; \<open>None\<close> is a key the event does not carry.
\<close>

record task_data =
  td_id :: "int option"
  td_user_id :: "string option"
  td_title :: "string option"
  td_description :: "string option"
  td_priority :: "string option"
  td_tags :: "string list option"
  td_recurrence_pattern :: "string option"
  td_recurrence_end_date :: "stamp option"
  td_recurrence_count :: "int option"
  td_completed_at :: "stamp option"

text \<open>
  The dict \<open>new_task\<close> that \<open>create_recurring_task\<close> sends to the task service. Its
  \<open>due_date\<close> is the ISO string of the next occurrence, kept here as the datetime it prints.
\<close>

record new_task =
  nt_user_id :: string
  nt_title :: string
  nt_description :: string
  nt_due_date :: datetime
  nt_priority :: string
  nt_tags :: "string list"
  nt_recurrence_pattern :: "string option"
  nt_recurrence_end_date :: "stamp option"
  nt_recurrence_count :: "int option"

text \<open>The audit event \<open>task_recurred\<close> of \<open>publish_recurrence_event\<close>.\<close>

record recurrence_event =
  ev_user_id :: "string option"
  ev_original_task_id :: "int option"
  ev_new_task_id :: jval
  ev_recurrence_pattern :: string
  ev_next_occurrence :: datetime
  ev_timestamp :: string

datatype call = GetState string | SaveState string | DeleteState string
  | InvokeMethod

text \<open>
  What the services act on: the shared state store, the log of client calls issued, the
  number of clock readings taken, the tasks the task service created, the events the bus
  accepted and the notifications dispatched (user, task title, due date).
\<close>

record world =
  store :: "string \<Rightarrow> sval option"
  calls :: "call list"
  ticks :: nat
  tasks :: "new_task list"
  published :: "recurrence_event list"
  sent :: "(string \<times> string \<times> string) list"

text \<open>
  What the services do not decide: the \<open>n\<close>-th reading of \<open>datetime.now()\<close>, whether
  the client call issued after \<open>n\<close> earlier ones raises, and the record the task service
  answers with for the \<open>n\<close>-th task it creates.
\<close>

record env =
  clock :: "nat \<Rightarrow> datetime"
  fails :: "nat \<Rightarrow> call \<Rightarrow> bool"
  reply :: "nat \<Rightarrow> new_task \<Rightarrow> dict"

definition now :: "env \<Rightarrow> world \<Rightarrow> datetime \<times> world" where
  "now env w = (clock env (ticks w), w\<lparr>ticks := ticks w + 1\<rparr>)"

text \<open>
  The Dapr client. Both services construct the synchronous \<open>DaprClient\<close> of
  \<open>dapr.clients\<close>. A call is logged, then raises or takes effect and returns its response;
  the response of \<open>get_state\<close> carries the stored value, \<open>None\<close> for a key the store does
  not hold.
\<close>

definition issue :: "call \<Rightarrow> world \<Rightarrow> world" where
  "issue c w = w\<lparr>calls := calls w @ [c]\<rparr>"

definition raises :: "env \<Rightarrow> call \<Rightarrow> world \<Rightarrow> bool" where
  "raises env c w = fails env (length (calls w)) c"

definition get_state :: "env \<Rightarrow> string \<Rightarrow> world \<Rightarrow> (exn + sval option) \<times> world" where
  "get_state env k w =
     (if raises env (GetState k) w then (Inl ClientError, issue (GetState k) w)
      else (Inr (store w k), issue (GetState k) w))"

definition save_state :: "env \<Rightarrow> string \<Rightarrow> sval \<Rightarrow> world \<Rightarrow> (exn + unit) \<times> world" where
  "save_state env k v w =
     (if raises env (SaveState k) w then (Inl ClientError, issue (SaveState k) w)
      else (Inr (), issue (SaveState k) (w\<lparr>store := (store w)(k \<mapsto> v)\<rparr>)))"

definition delete_state :: "env \<Rightarrow> string \<Rightarrow> world \<Rightarrow> (exn + unit) \<times> world" where
  "delete_state env k w =
     (if raises env (DeleteState k) w then (Inl ClientError, issue (DeleteState k) w)
      else (Inr (), issue (DeleteState k) (w\<lparr>store := (store w)(k := None)\<rparr>)))"

text \<open>
  \<open>await self.client.get_state(...)\<close>, \<open>await self.client.save_state(...)\<close> and
  \<open>await self.client.delete_state(...)\<close>, as both services write every state call. The
  call of the synchronous client is made first and returns a response object; that object
  is not awaitable, so the \<open>await\<close> raises \<open>TypeError\<close> once the call has taken effect. A
  call that raises by itself raises its own exception. Nothing is suspended on the way:
  one handler invocation runs to its end before the next one starts.
\<close>

definition awaited :: "(exn + 'a) \<times> world \<Rightarrow> (exn + 'a) \<times> world" where
  "awaited r = (case fst r of Inl e \<Rightarrow> (Inl e, snd r) | Inr v \<Rightarrow> (Inl TypeError, snd r))"

text \<open>
  \<open>invoke_method(..., method_name='create_task', ...)\<close>, not awaited, followed by
  \<open>json.loads\<close> of the response: the task service creates the task and answers with its
  record.
\<close>

definition invoke_create_task :: "env \<Rightarrow> new_task \<Rightarrow> world \<Rightarrow> (exn + dict) \<times> world" where
  "invoke_create_task env t w =
     (if raises env InvokeMethod w then (Inl ClientError, issue InvokeMethod w)
      else (Inr (reply env (length (tasks w)) t),
            issue InvokeMethod (w\<lparr>tasks := tasks w @ [t]\<rparr>)))"

text \<open>
  \<open>publish_event(pubsub_name=..., topic_name=..., data=event_data)\<close>, not awaited. The
  client takes text or bytes as \<open>data\<close> and raises \<open>ValueError\<close> for a value of another
  type before it makes a request; the engine hands it the dict of the event, so the bus
  receives nothing.
\<close>

definition publish_event :: "env \<Rightarrow> recurrence_event \<Rightarrow> world \<Rightarrow> (exn + unit) \<times> world" where
  "publish_event env data w = (Inl ValueError, w)"

section \<open>Recurrence engine (recurrence_engine/main.py)\<close>

text \<open>\<open>d.get(k, default)\<close> on an optional field.\<close>

definition the_default :: "'a \<Rightarrow> 'a option \<Rightarrow> 'a" where
  "the_default d x = (case x of None \<Rightarrow> d | Some v \<Rightarrow> v)"


datatype RecurrencePattern = DAILY | WEEKLY | MONTHLY | YEARLY

fun pattern_value :: "RecurrencePattern \<Rightarrow> string" where
  "pattern_value DAILY = ''daily''"
| "pattern_value WEEKLY = ''weekly''"
| "pattern_value MONTHLY = ''monthly''"
| "pattern_value YEARLY = ''yearly''"

text \<open>\<open>RecurrencePattern(s)\<close>: the member with that value, or \<open>ValueError\<close>.\<close>

definition RecurrencePattern_of :: "string \<Rightarrow> exn + RecurrencePattern" where
  "RecurrencePattern_of s =
     (if s = ''daily'' then Inr DAILY
      else if s = ''weekly'' then Inr WEEKLY
      else if s = ''monthly'' then Inr MONTHLY
      else if s = ''yearly'' then Inr YEARLY
      else Inl ValueError)"

definition add_months :: "datetime \<Rightarrow> int \<Rightarrow> exn + datetime" where
  "add_months dt months =
     (let m = month dt - 1 + months;
          y = year dt + m div 12;
          m' = m mod 12 + 1;
          d = min (day dt)
                ([31, if y mod 4 = 0 \<and> (y mod 100 \<noteq> 0 \<or> y mod 400 = 0) then 29 else 28,
                  31, 30, 31, 30, 31, 31, 30, 31, 30, 31] ! nat (m' - 1))
      in dt_replace dt y m' d)"

text \<open>
  The result of \<open>calculate_next_occurrence\<close> is the ISO string of the next date, kept as
  that date, or \<open>None\<close>: every exception inside is caught and turned into \<open>None\<close>.
\<close>

definition caught :: "exn + datetime \<Rightarrow> datetime option" where
  "caught r = (case r of Inl e \<Rightarrow> None | Inr d \<Rightarrow> Some d)"

definition calculate_next_occurrence ::
    "env \<Rightarrow> task_data \<Rightarrow> world \<Rightarrow> datetime option \<times> world" where
  "calculate_next_occurrence env task_data w =
     (let recurrence_pattern =
            lower (the_default [] (td_recurrence_pattern task_data));
          (t, w') = now env w;
          completed_at = the_default (Instant t) (td_completed_at task_data)
      in case fromisoformat completed_at of
           Inl e \<Rightarrow> (None, w')
         | Inr completed_datetime \<Rightarrow>
             (if recurrence_pattern = ''daily'' then caught (plus_days completed_datetime 1)
              else if recurrence_pattern = ''weekly'' then caught (plus_days completed_datetime 7)
              else if recurrence_pattern = ''monthly'' then caught (add_months completed_datetime 1)
              else if recurrence_pattern = ''yearly'' then caught (add_months completed_datetime 12)
              else None, w'))"

definition has_processed_recurrence :: "env \<Rightarrow> string \<Rightarrow> world \<Rightarrow> bool \<times> world" where
  "has_processed_recurrence env processing_id w =
     (case awaited (get_state env (''recurrence_processed:'' @ processing_id) w) of
        (Inl e, w') \<Rightarrow> (False, w')
      | (Inr data, w') \<Rightarrow> (data \<noteq> None, w'))"

definition marker :: "string \<Rightarrow> datetime \<Rightarrow> sval" where
  "marker status t = SObj [(''status'', JStr status), (''timestamp'', JStr (isoformat t))]"

definition mark_recurrence_processing_started ::
    "env \<Rightarrow> string \<Rightarrow> world \<Rightarrow> bool \<times> world" where
  "mark_recurrence_processing_started env processing_id w =
     (let (t, w1) = now env w in
      case awaited (save_state env (''recurrence_started:'' @ processing_id)
                     (marker ''started'' t) w1) of
        (Inl e, w2) \<Rightarrow> (False, w2)
      | (Inr u, w2) \<Rightarrow> (True, w2))"

definition mark_recurrence_processing_completed ::
    "env \<Rightarrow> string \<Rightarrow> world \<Rightarrow> bool \<times> world" where
  "mark_recurrence_processing_completed env processing_id w =
     (let (t, w1) = now env w in
      case awaited (save_state env (''recurrence_processed:'' @ processing_id)
                     (marker ''completed'' t) w1) of
        (Inl e, w2) \<Rightarrow> (False, w2)
      | (Inr u, w2) \<Rightarrow>
          (case awaited (delete_state env (''recurrence_started:'' @ processing_id) w2) of
             (Inl e, w3) \<Rightarrow> (False, w3)
           | (Inr u', w3) \<Rightarrow> (True, w3)))"

text \<open>
  \<open>datetime.now(end_date.tzinfo)\<close> is the clock reading in the time zone of the end date,
  so the comparison is between datetimes of one zone. A malformed end date raises inside
  the \<open>try\<close> and the function answers \<open>False\<close> without looking at the count.
\<close>

definition should_stop_recurrence :: "env \<Rightarrow> task_data \<Rightarrow> world \<Rightarrow> bool \<times> world" where
  "should_stop_recurrence env task_data w =
     (let count_reached =
            (case td_recurrence_count task_data of None \<Rightarrow> False | Some c \<Rightarrow> c \<le> 0)
      in case td_recurrence_end_date task_data of
           None \<Rightarrow> (count_reached, w)
         | Some Blank \<Rightarrow> (count_reached, w)
         | Some Malformed \<Rightarrow> (False, w)
         | Some (Instant end_date) \<Rightarrow>
             (let (t, w') = now env w in
              if dt_ge t end_date then (True, w') else (count_reached, w')))"

text \<open>
  \<open>original_task['user_id']\<close>, \<open>['title']\<close> and \<open>['description']\<close> raise \<open>KeyError\<close> on
  an event without them; that and a failed call are caught and answered with \<open>None\<close>.
\<close>

definition create_recurring_task ::
    "env \<Rightarrow> task_data \<Rightarrow> datetime \<Rightarrow> world \<Rightarrow> dict option \<times> world" where
  "create_recurring_task env original_task next_occurrence w =
     (case (td_user_id original_task, td_title original_task, td_description original_task) of
        (Some u, Some ti, Some de) \<Rightarrow>
          (let new_task =
                 \<lparr>nt_user_id = u, nt_title = ti, nt_description = de,
                  nt_due_date = next_occurrence,
                  nt_priority = the_default ''medium'' (td_priority original_task),
                  nt_tags = the_default [] (td_tags original_task),
                  nt_recurrence_pattern = td_recurrence_pattern original_task,
                  nt_recurrence_end_date = td_recurrence_end_date original_task,
                  nt_recurrence_count = td_recurrence_count original_task\<rparr>;
               new_task' =
                 (case nt_recurrence_count new_task of
                    None \<Rightarrow> new_task
                  | Some c \<Rightarrow> new_task\<lparr>nt_recurrence_count := Some (c - 1)\<rparr>)
           in case invoke_create_task env new_task' w of
                (Inl e, w') \<Rightarrow> (None, w')
              | (Inr new_task_result, w') \<Rightarrow> (Some new_task_result, w'))
      | _ \<Rightarrow> (None, w))"

definition publish_recurrence_event ::
    "env \<Rightarrow> string option \<Rightarrow> int option \<Rightarrow> jval \<Rightarrow> string \<Rightarrow> datetime \<Rightarrow> world \<Rightarrow> world" where
  "publish_recurrence_event env user_id original_task_id new_task_id pattern next_occurrence w =
     (let (t, w1) = now env w;
          event_data =
            \<lparr>ev_user_id = user_id, ev_original_task_id = original_task_id,
             ev_new_task_id = new_task_id, ev_recurrence_pattern = pattern,
             ev_next_occurrence = next_occurrence, ev_timestamp = isoformat t\<rparr>
      in snd (publish_event env event_data w1))"

text \<open>The f-string of an optional event field: \<open>None\<close> prints as such.\<close>

definition processing_id_of :: "string option \<Rightarrow> int option \<Rightarrow> datetime \<Rightarrow> string" where
  "processing_id_of user_id task_id t =
     ''recurrence_'' @ (case user_id of None \<Rightarrow> ''None'' | Some u \<Rightarrow> u) @ ''_'' @
     (case task_id of None \<Rightarrow> ''None'' | Some i \<Rightarrow> str_int i) @ ''_'' @ strftime_micros t"

text \<open>\<open>finish\<close>: mark the processing completed, then return the given result.\<close>

definition finish :: "env \<Rightarrow> string \<Rightarrow> bool \<Rightarrow> world \<Rightarrow> bool \<times> world" where
  "finish env processing_id result w =
     (result, snd (mark_recurrence_processing_completed env processing_id w))"

text \<open>
  \<open>process_completed_task\<close>. The identity is formatted from \<open>datetime.now()\<close>, read when
  the event is handled. \<open>new_task_data['id']\<close> raises \<open>KeyError\<close> when the answer of
  the task service has no id: the outer \<open>except\<close> then returns \<open>False\<close>.
\<close>

definition process_completed_task :: "env \<Rightarrow> task_data \<Rightarrow> world \<Rightarrow> bool \<times> world" where
  "process_completed_task env task_data w =
     (let task_id = td_id task_data;
          user_id = td_user_id task_data;
          recurrence_pattern = td_recurrence_pattern task_data;
          (t, w1) = now env w;
          processing_id = processing_id_of user_id task_id t;
          (processed, w2) = has_processed_recurrence env processing_id w1
      in if processed then (True, w2)
         else
           (let w3 = snd (mark_recurrence_processing_started env processing_id w2) in
            if recurrence_pattern = None \<or> recurrence_pattern = Some []
            then finish env processing_id True w3
            else
              (case RecurrencePattern_of (lower (the_default [] recurrence_pattern)) of
                 Inl e \<Rightarrow> finish env processing_id False w3
               | Inr pattern \<Rightarrow>
                   (let (stop, w4) = should_stop_recurrence env task_data w3 in
                    if stop then finish env processing_id True w4
                    else
                      (case calculate_next_occurrence env task_data w4 of
                         (None, w5) \<Rightarrow> finish env processing_id False w5
                       | (Some next_occurrence, w5) \<Rightarrow>
                           (case create_recurring_task env task_data next_occurrence w5 of
                              (None, w6) \<Rightarrow> finish env processing_id False w6
                            | (Some new_task_data, w6) \<Rightarrow>
                                (if new_task_data = [] then finish env processing_id False w6
                                 else
                                   (case dict_get new_task_data ''id'' of
                                      None \<Rightarrow> (False, w6)
                                    | Some new_id \<Rightarrow>
                                        finish env processing_id True
                                          (publish_recurrence_event env user_id task_id new_id
                                             (pattern_value pattern) next_occurrence w6)))))))))"

section \<open>Reminder state (notification_service/reminder_state.py)\<close>

text \<open>
  \<open>get_reminder\<close> answers \<open>None\<close> whenever an exception is raised inside its \<open>try\<close>:
  by the read, by the \<open>await\<close> of its response, or by \<open>reminder_data.get\<close> on a stored
  list. The lines after the \<open>await\<close> answer \<open>None\<close> for an absent key and the stored
  reminder otherwise.
\<close>

definition get_reminder :: "env \<Rightarrow> string \<Rightarrow> world \<Rightarrow> dict option \<times> world" where
  "get_reminder env reminder_id w =
     (case awaited (get_state env reminder_id w) of
        (Inl e, w') \<Rightarrow> (None, w')
      | (Inr None, w') \<Rightarrow> (None, w')
      | (Inr (Some (SObj reminder_data)), w') \<Rightarrow> (Some reminder_data, w')
      | (Inr (Some (SIds l)), w') \<Rightarrow> (None, w'))"

text \<open>\<open>if reminder\<close>, \<open>if not current_data\<close>: \<open>None\<close> and the empty dict are false.\<close>

definition found :: "dict option \<Rightarrow> bool" where
  "found r = (r \<noteq> None \<and> r \<noteq> Some [])"

text \<open>
  One index of \<open>_add_to_user_task_index\<close>: read the list (absent means empty), append the
  id unless it is there, write the list back. A stored object instead of a list answers
  the membership test with its keys and has no \<open>append\<close>.
\<close>

definition add_to_index :: "env \<Rightarrow> string \<Rightarrow> string \<Rightarrow> world \<Rightarrow> (exn + unit) \<times> world" where
  "add_to_index env index_key reminder_id w =
     (case awaited (get_state env index_key w) of
        (Inl e, w1) \<Rightarrow> (Inl e, w1)
      | (Inr (Some (SObj d)), w1) \<Rightarrow>
          (if reminder_id \<in> set (map fst d) then (Inr (), w1) else (Inl AttributeError, w1))
      | (Inr (Some (SIds ids)), w1) \<Rightarrow>
          (if reminder_id \<in> set ids then (Inr (), w1)
           else awaited (save_state env index_key (SIds (ids @ [reminder_id])) w1))
      | (Inr None, w1) \<Rightarrow> awaited (save_state env index_key (SIds [reminder_id]) w1))"

definition add_to_user_task_index :: "env \<Rightarrow> jval \<Rightarrow> jval \<Rightarrow> string \<Rightarrow> world \<Rightarrow> world" where
  "add_to_user_task_index env user_id task_id reminder_id w =
     (case add_to_index env (''user_reminders:'' @ py_str user_id) reminder_id w of
        (Inl e, w1) \<Rightarrow> w1
      | (Inr u, w1) \<Rightarrow>
          snd (add_to_index env
                 (''task_reminders:'' @ py_str user_id @ '':'' @ py_str task_id) reminder_id w1))"

definition store_reminder :: "env \<Rightarrow> string \<Rightarrow> dict \<Rightarrow> world \<Rightarrow> bool \<times> world" where
  "store_reminder env reminder_id reminder_data w =
     (let (t, w1) = now env w;
          reminder_data' = dict_set reminder_data ''updated_at'' (JStr (isoformat t))
      in case awaited (save_state env reminder_id (SObj reminder_data') w1) of
           (Inl e, w2) \<Rightarrow> (False, w2)
         | (Inr u, w2) \<Rightarrow>
             (case (dict_get reminder_data' ''user_id'', dict_get reminder_data' ''task_id'') of
                (Some user_id, Some task_id) \<Rightarrow>
                  (True, add_to_user_task_index env user_id task_id reminder_id w2)
              | _ \<Rightarrow> (False, w2)))"

definition update_reminder :: "env \<Rightarrow> string \<Rightarrow> dict \<Rightarrow> world \<Rightarrow> bool \<times> world" where
  "update_reminder env reminder_id updates w =
     (case get_reminder env reminder_id w of
        (None, w1) \<Rightarrow> (False, w1)
      | (Some current_data, w1) \<Rightarrow>
          (if current_data = [] then (False, w1)
           else
             (let (t, w2) = now env w1;
                  current_data' =
                    dict_set (dict_update current_data updates) ''updated_at'' (JStr (isoformat t))
              in case awaited (save_state env reminder_id (SObj current_data') w2) of
                   (Inl e, w3) \<Rightarrow> (False, w3)
                 | (Inr u, w3) \<Rightarrow> (True, w3))))"



definition mark_reminder_as_notified :: "env \<Rightarrow> string \<Rightarrow> world \<Rightarrow> bool \<times> world" where
  "mark_reminder_as_notified env reminder_id w =
     update_reminder env reminder_id [(''notified'', JBool True)] w"

definition is_reminder_notified :: "env \<Rightarrow> string \<Rightarrow> world \<Rightarrow> jval \<times> world" where
  "is_reminder_notified env reminder_id w =
     (let (reminder, w1) = get_reminder env reminder_id w
      in (if found reminder
          then the_default (JBool False) (dict_get (the_default [] reminder) ''notified'')
          else JBool False, w1))"


definition is_reminder_cancelled :: "env \<Rightarrow> string \<Rightarrow> world \<Rightarrow> jval \<times> world" where
  "is_reminder_cancelled env reminder_id w =
     (let (reminder, w1) = get_reminder env reminder_id w
      in (if found reminder
          then the_default (JBool False) (dict_get (the_default [] reminder) ''cancelled'')
          else JBool False, w1))"




section \<open>Notification service (notification_service/main.py)\<close>

record reminder_event =
  re_user_id :: "string option"
  re_task_id :: "int option"
  re_task_title :: "string option"
  re_due_date :: "string option"
  re_event_type :: "string option"
  re_timestamp :: "string option"

text \<open>
  \<open>send_notification\<close> with the default channel writes the reminder to the log and cannot
  fail; the world records the dispatch.
\<close>

definition send_notification :: "string \<Rightarrow> string \<Rightarrow> string \<Rightarrow> world \<Rightarrow> world" where
  "send_notification user_id task_title due_date w =
     w\<lparr>sent := sent w @ [(user_id, task_title, due_date)]\<rparr>"

definition reminder_id_of :: "string \<Rightarrow> int \<Rightarrow> datetime \<Rightarrow> string" where
  "reminder_id_of user_id task_id t =
     ''reminder_'' @ user_id @ ''_'' @ str_int task_id @ ''_'' @ strftime_seconds t"

definition opt_str :: "string option \<Rightarrow> jval" where
  "opt_str x = (case x of None \<Rightarrow> JNone | Some s \<Rightarrow> JStr s)"

text \<open>\<open>all([user_id, task_id, task_title, due_date])\<close>.\<close>

definition accepted :: "reminder_event \<Rightarrow> bool" where
  "accepted e =
     (truthy (opt_str (re_user_id e)) \<and>
      (case re_task_id e of None \<Rightarrow> False | Some i \<Rightarrow> i \<noteq> 0) \<and>
      truthy (opt_str (re_task_title e)) \<and> truthy (opt_str (re_due_date e)))"

definition reminder_handler :: "env \<Rightarrow> reminder_event \<Rightarrow> world \<Rightarrow> world" where
  "reminder_handler env event_data w =
     (if \<not> accepted event_data then w
      else
        (let user_id = the_default [] (re_user_id event_data);
             task_id = the_default 0 (re_task_id event_data);
             task_title = the_default [] (re_task_title event_data);
             due_date = the_default [] (re_due_date event_data);
             (t0, w0) = now env w;
             reminder_id = reminder_id_of user_id task_id t0;
             (t1, w1) = now env w0;
             (t2, w2) = now env w1;
             reminder_data =
               [(''user_id'', JStr user_id), (''task_id'', JInt task_id),
                (''task_title'', JStr task_title), (''due_date'', JStr due_date),
                (''notified'', JBool False),
                (''event_type'', opt_str (re_event_type event_data)),
                (''timestamp'', JStr (the_default (isoformat t1) (re_timestamp event_data))),
                (''created_at'', JStr (isoformat t2))];
             w3 = snd (store_reminder env reminder_id reminder_data w2);
             (is_notified, w4) = is_reminder_notified env reminder_id w3
         in if truthy is_notified then w4
            else snd (mark_reminder_as_notified env reminder_id
                        (send_notification user_id task_title due_date w4))))"

section \<open>Task lifecycle handler (notification_service/task_lifecycle_handler.py)\<close>




section \<open>Reminder scheduler (notification_service/reminder_scheduler.py)\<close>

text \<open>
  The module's global flag and the scans handed to the event loop that have not finished.
  \<open>asyncio.create_task\<close> schedules \<open>check_upcoming_tasks\<close> and returns at once; without
  a running loop it raises \<open>RuntimeError\<close>, which \<open>reminder_check\<close> catches. The
  \<open>finally\<close> clause then resets the flag. \<open>skipped\<close> counts the invocations that took
  the skip branch, which the code only logs.
\<close>

record scheduler =
  checking_reminders :: bool
  in_flight :: nat
  skipped :: nat

definition reminder_check :: "bool \<Rightarrow> scheduler \<Rightarrow> scheduler" where
  "reminder_check loop_running s =
     (if checking_reminders s then s\<lparr>skipped := skipped s + 1\<rparr>
      else
        (let s1 = s\<lparr>checking_reminders := True\<rparr>;
             s2 = (if loop_running then s1\<lparr>in_flight := in_flight s1 + 1\<rparr> else s1)
         in s2\<lparr>checking_reminders := False\<rparr>))"

text \<open>The event loop runs one scheduled scan to its end.\<close>

definition scan_done :: "scheduler \<Rightarrow> scheduler" where
  "scan_done s = s\<lparr>in_flight := in_flight s - 1\<rparr>"

section \<open>WebSocket manager (websocket_service/main.py)\<close>

text \<open>
  A connection object is known by its identity. A Python set of connections is a
  duplicate-free list; its order stands for the iteration order of the set, which the
  language leaves open. \<open>inbox\<close> is what each connection was sent.
\<close>

type_synonym handle = nat

record manager =
  active_connections :: "string \<Rightarrow> handle list option"
  user_connection_map :: "handle \<Rightarrow> string option"
  inbox :: "handle \<Rightarrow> string list"

definition connect :: "handle \<Rightarrow> string \<Rightarrow> manager \<Rightarrow> manager" where
  "connect websocket user_id m =
     (let cs = the_default [] (active_connections m user_id);
          cs' = (if websocket \<in> set cs then cs else cs @ [websocket])
      in m\<lparr>active_connections := (active_connections m)(user_id \<mapsto> cs'),
            user_connection_map := (user_connection_map m)(websocket \<mapsto> user_id)\<rparr>)"

definition disconnect :: "handle \<Rightarrow> manager \<Rightarrow> manager" where
  "disconnect websocket m =
     (case user_connection_map m websocket of
        None \<Rightarrow> m
      | Some user_id \<Rightarrow>
          (let m1 =
                 (case active_connections m user_id of
                    None \<Rightarrow> m
                  | Some cs \<Rightarrow>
                      (let cs' = removeAll websocket cs
                       in if length cs' = 0
                          then m\<lparr>active_connections := (active_connections m)(user_id := None)\<rparr>
                          else m\<lparr>active_connections := (active_connections m)(user_id \<mapsto> cs')\<rparr>))
           in m1\<lparr>user_connection_map := (user_connection_map m1)(websocket := None)\<rparr>))"

text \<open>
  The first loop of \<open>broadcast_to_user\<close>, over the copy of the set: \<open>send\<close> raises what
  \<open>broken\<close> says for a connection (\<open>ConnectionClosed\<close> or another exception, both
  lead to removal), or delivers.
\<close>

fun send_each ::
    "(handle \<Rightarrow> exn option) \<Rightarrow> string \<Rightarrow> handle list \<Rightarrow> manager \<Rightarrow> handle list \<times> manager" where
  "send_each broken message [] m = ([], m)"
| "send_each broken message (connection # cs) m =
     (case broken connection of
        None \<Rightarrow>
          send_each broken message cs
            (m\<lparr>inbox := (inbox m)(connection := inbox m connection @ [message])\<rparr>)
      | Some e \<Rightarrow>
          (let (connections_to_remove, m') = send_each broken message cs m
           in (connection # connections_to_remove, m')))"

fun disconnect_each :: "handle list \<Rightarrow> manager \<Rightarrow> manager" where
  "disconnect_each [] m = m"
| "disconnect_each (connection # cs) m = disconnect_each cs (disconnect connection m)"

definition broadcast_to_user ::
    "(handle \<Rightarrow> exn option) \<Rightarrow> string \<Rightarrow> string \<Rightarrow> manager \<Rightarrow> manager" where
  "broadcast_to_user broken user_id message m =
     (case active_connections m user_id of
        None \<Rightarrow> m
      | Some cs \<Rightarrow>
          (let (connections_to_remove, m') = send_each broken message cs m
           in disconnect_each connections_to_remove m'))"

text \<open>
  The registry as \<open>websocket_handler\<close> keeps it: every connection of a user's set is
  mapped back to that user, and no set is empty or lists a connection twice.
\<close>

definition consistent :: "manager \<Rightarrow> bool" where
  "consistent m =
     (\<forall>u cs. active_connections m u = Some cs \<longrightarrow>
        cs \<noteq> [] \<and> distinct cs \<and> (\<forall>c \<in> set cs. user_connection_map m c = Some u))"

section \<open>Statements of the specification and concrete inputs\<close>

text \<open>
  "Add \<open>k\<close> calendar months, with day-of-month clamped to the last valid day of the
  resulting month": \<open>r\<close> lies \<open>k\<close> months after \<open>c\<close>, at the same time of day.
\<close>

definition moved_by_months :: "datetime \<Rightarrow> int \<Rightarrow> datetime \<Rightarrow> bool" where
  "moved_by_months c k r =
     (year r * 12 + (month r - 1) = year c * 12 + (month c - 1) + k \<and>
      1 \<le> month r \<and> month r \<le> 12 \<and>
      day r = min (day c) (days_in_month (year r) (month r)) \<and>
      hour r = hour c \<and> minute r = minute c \<and> second r = second c \<and>
      microsecond r = microsecond c)"

text \<open>
  "\<open>n\<close> days later": dates are numbered as \<open>date.toordinal\<close> numbers them, 1 January
  of the year 1 being day 1, by the days of the years and of the months that lie before.
  \<open>r\<close> lies \<open>n\<close> days after \<open>c\<close> when it is a date of the calendar whose number is
  that of \<open>c\<close> plus \<open>n\<close>, at the same time of day. \<open>last_day\<close> is the last date a
  \<open>datetime\<close> can hold.
\<close>

definition days_before_year :: "int \<Rightarrow> int" where
  "days_before_year y = (y - 1) * 365 + (y - 1) div 4 - (y - 1) div 100 + (y - 1) div 400"

definition days_before_month :: "int \<Rightarrow> int \<Rightarrow> int" where
  "days_before_month y m =
     [0, 31, 59, 90, 120, 151, 181, 212, 243, 273, 304, 334] ! nat (m - 1) +
     (if 2 < m \<and> is_leap y then 1 else 0)"

definition toordinal :: "datetime \<Rightarrow> int" where
  "toordinal dt = days_before_year (year dt) + days_before_month (year dt) (month dt) + day dt"

definition days_later :: "datetime \<Rightarrow> int \<Rightarrow> datetime \<Rightarrow> bool" where
  "days_later c n r =
     (valid_datetime r \<and> toordinal r = toordinal c + n \<and>
      hour r = hour c \<and> minute r = minute c \<and> second r = second c \<and>
      microsecond r = microsecond c)"

definition last_day :: datetime where
  "last_day = \<lparr>year = 9999, month = 12, day = 31, hour = 23, minute = 59, second = 59,
               microsecond = 999999\<rparr>"

text \<open>
  A clock that starts on 1 March 2024 and advances by a microsecond per reading, a store
  whose calls all succeed, a task service that numbers its tasks from 100, and the empty
  world.
\<close>

definition env0 :: env where
  "env0 = \<lparr>clock = (\<lambda>n. \<lparr>year = 2024, month = 3, day = 1, hour = 9, minute = 0, second = 0,
                            microsecond = int n\<rparr>),
           fails = (\<lambda>n c. False),
           reply = (\<lambda>n t. [(''id'', JInt (100 + int n))])\<rparr>"

definition w0 :: world where
  "w0 = \<lparr>store = (\<lambda>k. None), calls = [], ticks = 0, tasks = [], published = [], sent = []\<rparr>"

definition jan31 :: datetime where
  "jan31 = \<lparr>year = 2024, month = 1, day = 31, hour = 10, minute = 30, second = 0, microsecond = 0\<rparr>"

definition feb29 :: datetime where
  "feb29 = \<lparr>year = 2024, month = 2, day = 29, hour = 10, minute = 30, second = 0, microsecond = 0\<rparr>"

definition td0 :: task_data where
  "td0 = \<lparr>td_id = Some 7, td_user_id = Some ''alice'', td_title = Some ''Pay rent'',
          td_description = Some ''monthly rent'', td_priority = Some ''high'',
          td_tags = Some [''home''], td_recurrence_pattern = Some ''Monthly'',
          td_recurrence_end_date = None, td_recurrence_count = Some 1,
          td_completed_at = Some (Instant jan31)\<rparr>"

text \<open>
  The module state of the scheduler at start, an empty registry, a registry with two
  connections of one user, and a broadcast in which the second of them is closed.
\<close>

definition scheduler0 :: scheduler where
  "scheduler0 = \<lparr>checking_reminders = False, in_flight = 0, skipped = 0\<rparr>"

definition manager0 :: manager where
  "manager0 = \<lparr>active_connections = (\<lambda>u. None), user_connection_map = (\<lambda>c. None),
               inbox = (\<lambda>c. [])\<rparr>"

definition manager2 :: manager where
  "manager2 = connect 2 ''alice'' (connect 1 ''alice'' manager0)"

definition broken2 :: "handle \<Rightarrow> exn option" where
  "broken2 c = (if c = 2 then Some ConnectionClosed else None)"

text \<open>
  Statements about the recurrence engine: the task the specification asks for in step 8,
  with \<open>medium\<close> and no tags for an event that has no priority or tags
  (\<open>carries_over\<close>, \<open>built_task\<close>), a store and bus that take every call
  (\<open>reliable\<close>), the termination condition (\<open>recurrence_ended\<close>), what "records a
  completed marker" means (\<open>records_completed\<close>: the write of the marker is issued, the
  marker is in the store when the store is reliable, and no task or event was added), and
  the world once the started marker has been attempted (\<open>started_world\<close>).
\<close>

definition carries_over :: "task_data \<Rightarrow> datetime \<Rightarrow> new_task \<Rightarrow> bool" where
  "carries_over td nxt nt =
     (td_user_id td = Some (nt_user_id nt) \<and> td_title td = Some (nt_title nt) \<and>
      td_description td = Some (nt_description nt) \<and>
      nt_priority nt = the_default ''medium'' (td_priority td) \<and>
      nt_tags nt = the_default [] (td_tags td) \<and>
      nt_recurrence_pattern nt = td_recurrence_pattern td \<and>
      nt_recurrence_end_date nt = td_recurrence_end_date td \<and>
      nt_due_date nt = nxt \<and>
      nt_recurrence_count nt = map_option (\<lambda>c. c - 1) (td_recurrence_count td))"

definition reliable :: "env \<Rightarrow> bool" where
  "reliable env = (\<forall>n c. \<not> fails env n c)"

definition built_task :: "task_data \<Rightarrow> datetime \<Rightarrow> new_task" where
  "built_task td nxt =
     \<lparr>nt_user_id = the_default [] (td_user_id td), nt_title = the_default [] (td_title td),
      nt_description = the_default [] (td_description td), nt_due_date = nxt,
      nt_priority = the_default ''medium'' (td_priority td),
      nt_tags = the_default [] (td_tags td),
      nt_recurrence_pattern = td_recurrence_pattern td,
      nt_recurrence_end_date = td_recurrence_end_date td,
      nt_recurrence_count = map_option (\<lambda>c. c - 1) (td_recurrence_count td)\<rparr>"

definition recurrence_ended :: "task_data \<Rightarrow> datetime \<Rightarrow> bool" where
  "recurrence_ended td t =
     ((\<exists>e. td_recurrence_end_date td = Some (Instant e) \<and> dt_ge t e) \<or>
      (\<exists>c. td_recurrence_count td = Some c \<and> c \<le> 0))"

definition records_completed :: "env \<Rightarrow> string \<Rightarrow> world \<Rightarrow> world \<Rightarrow> bool" where
  "records_completed env processing_id w w' =
     ((\<exists>cs. calls w' = calls w @ cs \<and>
            SaveState (''recurrence_processed:'' @ processing_id) \<in> set cs) \<and>
      (reliable env \<longrightarrow>
         (\<exists>t. store w' (''recurrence_processed:'' @ processing_id) =
                Some (marker ''completed'' t))) \<and>
      tasks w' = tasks w \<and> published w' = published w)"

definition started_world :: "env \<Rightarrow> task_data \<Rightarrow> world \<Rightarrow> world" where
  "started_world env td w =
     (let pid = processing_id_of (td_user_id td) (td_id td) (clock env (ticks w))
      in snd (mark_recurrence_processing_started env pid
           (snd (has_processed_recurrence env pid (snd (now env w))))))"

definition td_unknown :: task_data where
  "td_unknown = td0\<lparr>td_recurrence_pattern := Some ''fortnightly''\<rparr>"

text \<open>
  The same task recurring daily, weekly and yearly, the dates one and seven days after
  31 January 2024, and a yearly task completed on 29 February 2024.
\<close>

definition td_yearly :: task_data where
  "td_yearly = td0\<lparr>td_recurrence_pattern := Some ''YEARLY''\<rparr>"

definition td_daily :: task_data where
  "td_daily = td0\<lparr>td_recurrence_pattern := Some ''daily''\<rparr>"

definition td_weekly :: task_data where
  "td_weekly = td0\<lparr>td_recurrence_pattern := Some ''Weekly''\<rparr>"

definition feb01 :: datetime where
  "feb01 = \<lparr>year = 2024, month = 2, day = 1, hour = 10, minute = 30, second = 0, microsecond = 0\<rparr>"

definition td_leap :: task_data where
  "td_leap = td0\<lparr>td_recurrence_pattern := Some ''yearly'', td_completed_at := Some (Instant feb29)\<rparr>"

definition feb07 :: datetime where
  "feb07 = \<lparr>year = 2024, month = 2, day = 7, hour = 10, minute = 30, second = 0, microsecond = 0\<rparr>"

text \<open>
  A completion event without a recurrence pattern, one whose counter has run out, one
  whose end date in addition is not an ISO date, and a task service that refuses every
  call.
\<close>

definition td_none :: task_data where
  "td_none = td0\<lparr>td_recurrence_pattern := None\<rparr>"

definition td_ended :: task_data where
  "td_ended = td0\<lparr>td_recurrence_count := Some 0\<rparr>"

definition td_malformed :: task_data where
  "td_malformed = td0\<lparr>td_recurrence_end_date := Some Malformed, td_recurrence_count := Some 0\<rparr>"

definition env_refuse :: env where
  "env_refuse = env0\<lparr>fails := (\<lambda>n c. c = InvokeMethod)\<rparr>"

text \<open>
  A stored reminder that has been notified, a store whose every call fails, and a
  reminder-due event. Then a listing in which every reminder has the cancelled flag, the
  reminder a store holds under an identity, a reminder whose two flags are set, and a
  store that holds it under the identity the handler derives for the event at the first
  clock reading.
\<close>

definition rem_notified :: dict where
  "rem_notified =
     [(''user_id'', JStr ''alice''), (''task_id'', JInt 7), (''task_title'', JStr ''Pay rent''),
      (''due_date'', JStr ''2024-03-01T10:00:00''), (''notified'', JBool True)]"

definition w_notified :: world where
  "w_notified = w0\<lparr>store := (\<lambda>k. None)(''r1'' \<mapsto> SObj rem_notified)\<rparr>"

definition env_down :: env where
  "env_down = env0\<lparr>fails := (\<lambda>n c. True)\<rparr>"

definition ev0 :: reminder_event where
  "ev0 = \<lparr>re_user_id = Some ''alice'', re_task_id = Some 7, re_task_title = Some ''Pay rent'',
          re_due_date = Some ''2024-03-01T10:00:00'', re_event_type = Some ''reminder_triggered'',
          re_timestamp = Some ''2024-03-01T09:00:00''\<rparr>"


definition stored_reminder :: "world \<Rightarrow> string \<Rightarrow> dict option" where
  "stored_reminder w reminder_id =
     (case store w reminder_id of Some (SObj d) \<Rightarrow> Some d | _ \<Rightarrow> None)"



section \<open>Properties\<close>

subsection \<open>Next occurrence\<close>

lemma nth_month_table:
  assumes "1 \<le> m" "m \<le> 12"
  shows "[31, if y mod 4 = 0 \<and> (y mod 100 \<noteq> 0 \<or> y mod 400 = 0) then 29 else 28,
          31, 30, 31, 30, 31, 31, 30, 31, 30, 31] ! nat (m - 1) = days_in_month y (m::int)"
proof -
  from assms have "m = 1 \<or> m = 2 \<or> m = 3 \<or> m = 4 \<or> m = 5 \<or> m = 6 \<or> m = 7 \<or> m = 8 \<or> m = 9
      \<or> m = 10 \<or> m = 11 \<or> m = 12" by arith
  then show ?thesis
    by (elim disjE) (simp_all add: days_in_month_def is_leap_def)
qed

lemma days_in_month_ge: "28 \<le> days_in_month y m"
  by (simp add: days_in_month_def)

lemma add_months_moves:
  assumes v: "valid_datetime c" and k: "0 \<le> k"
    and r: "year c * 12 + (month c - 1) + k < 10000 * 12"
  shows "\<exists>r. add_months c k = Inr r \<and> moved_by_months c k r \<and> valid_datetime r"
proof -
  define m where "m = month c - 1 + k"
  define y where "y = year c + m div 12"
  define m' where "m' = m mod 12 + 1"
  define d where "d = min (day c) (days_in_month y m')"
  have m0: "0 \<le> m" using v k by (simp add: m_def valid_datetime_def)
  have mr: "1 \<le> m'" "m' \<le> 12" by (simp_all add: m'_def)
  have split: "m = 12 * (m div 12) + m mod 12" by simp
  have q0: "0 \<le> m div 12" using m0 by (simp add: pos_imp_zdiv_nonneg_iff)
  have r0: "0 \<le> m mod 12" by simp
  have yc: "1 \<le> year c" using v by (simp add: valid_datetime_def)
  have bound: "year c * 12 + m < 120000" using r by (simp add: m_def)
  have yr: "1 \<le> y" "y \<le> 9999"
    using q0 yc split r0 bound by (simp_all add: y_def)
  have dr: "1 \<le> d" "d \<le> days_in_month y m'"
    using v days_in_month_ge[of y m'] by (simp_all add: d_def valid_datetime_def)
  have tab: "min (day c)
      ([31, if y mod 4 = 0 \<and> (y mod 100 \<noteq> 0 \<or> y mod 400 = 0) then 29 else 28,
        31, 30, 31, 30, 31, 31, 30, 31, 30, 31] ! nat (m' - 1)) = d"
    using nth_month_table[OF mr, of y] by (simp add: d_def)
  have eq: "add_months c k = Inr (c\<lparr>year := y, month := m', day := d\<rparr>)"
    unfolding add_months_def Let_def m_def[symmetric] y_def[symmetric] m'_def[symmetric] tab
    using mr yr dr by (simp add: dt_replace_def)
  have idx: "y * 12 + (m' - 1) = year c * 12 + (month c - 1) + k"
  proof -
    have "y * 12 + (m' - 1) = year c * 12 + m"
      using split by (simp add: y_def m'_def)
    then show ?thesis by (simp add: m_def)
  qed
  have mv: "moved_by_months c k (c\<lparr>year := y, month := m', day := d\<rparr>)"
    using idx mr by (simp add: moved_by_months_def d_def)
  have vd: "valid_datetime (c\<lparr>year := y, month := m', day := d\<rparr>)"
    using v mr yr dr by (simp add: valid_datetime_def)
  from eq mv vd show ?thesis by blast
qed

lemma calc_value:
  assumes "td_completed_at td = Some (Instant c)" and "td_recurrence_pattern td = Some p"
  shows "fst (calculate_next_occurrence env td w) =
    (if lower p = ''daily'' then caught (plus_days c 1)
     else if lower p = ''weekly'' then caught (plus_days c 7)
     else if lower p = ''monthly'' then caught (add_months c 1)
     else if lower p = ''yearly'' then caught (add_months c 12)
     else None)"
  using assms
  by (simp add: calculate_next_occurrence_def now_def the_default_def Let_def)

lemma january_31_monthly:
  assumes "valid_datetime c" "month c = 1" "day c = 31"
  shows "add_months c 1 = Inr (c\<lparr>month := 2, day := if is_leap (year c) then 29 else 28\<rparr>)"
  using assms
  by (simp add: add_months_def dt_replace_def valid_datetime_def days_in_month_def is_leap_def
      Let_def)

lemma not_leap_after_leap: "is_leap y \<Longrightarrow> \<not> is_leap (y + 1)"
proof -
  assume "is_leap y"
  then have "y mod 4 = 0" by (simp add: is_leap_def)
  then have "(y + 1) mod 4 = 1" using mod_add_left_eq[of y 4 1] by simp
  then show "\<not> is_leap (y + 1)" by (simp add: is_leap_def)
qed

lemma february_29_leap:
  assumes "valid_datetime c" "month c = 2" "day c = 29"
  shows "is_leap (year c)"
proof (rule ccontr)
  assume "\<not> is_leap (year c)"
  then have "days_in_month (year c) 2 = 28" by (simp add: days_in_month_def)
  moreover have "day c \<le> days_in_month (year c) (month c)"
    using assms(1) by (simp add: valid_datetime_def)
  ultimately show False using assms(2,3) by simp
qed

lemma february_29_yearly:
  assumes "valid_datetime c" "month c = 2" "day c = 29" "year c < 9999"
  shows "add_months c 12 = Inr (c\<lparr>year := year c + 1, day := 28\<rparr>)"
proof -
  have leap: "is_leap (year c)" by (rule february_29_leap[OF assms(1,2,3)])
  have nl: "\<not> ((year c + 1) mod 4 = 0 \<and> ((year c + 1) mod 100 \<noteq> 0 \<or> (year c + 1) mod 400 = 0))"
    using not_leap_after_leap[OF leap] unfolding is_leap_def .
  have dim: "days_in_month (year c + 1) 2 = 28"
    using not_leap_after_leap[OF leap] by (simp add: days_in_month_def)
  have yr: "1 \<le> year c" using assms(1) by (simp add: valid_datetime_def)
  have m: "(month c - 1 + 12) div 12 = 1" "(month c - 1 + 12) mod 12 + 1 = 2"
    using assms(2) by simp_all
  show ?thesis
    unfolding add_months_def Let_def m if_not_P[OF nl]
    using assms(3,4) yr dim by (simp add: dt_replace_def assms(2))
qed

lemma div_step:
  fixes y k :: int
  assumes "0 < k"
  shows "y div k - (y - 1) div k = (if y mod k = 0 then 1 else 0)"
proof (cases "y mod k = 0")
  case True
  have "k * (y div k) + y mod k = y" by (rule mult_div_mod_eq)
  with True have "y - 1 = k * (y div k - 1) + (k - 1)" by (simp add: algebra_simps)
  moreover have "0 \<le> k - 1" "k - 1 < k" using assms by simp_all
  ultimately have "(y - 1) div k = y div k - 1" by (rule int_div_pos_eq)
  with True show ?thesis by simp
next
  case False
  have "0 \<le> y mod k" "y mod k < k" using assms by simp_all
  with False have r: "0 \<le> y mod k - 1" "y mod k - 1 < k" by simp_all
  have "k * (y div k) + y mod k = y" by (rule mult_div_mod_eq)
  then have "y - 1 = k * (y div k) + (y mod k - 1)" by simp
  then have "(y - 1) div k = y div k"
    using r by (rule int_div_pos_eq)
  with False show ?thesis by simp
qed

lemma year_step:
  "days_before_year (y + 1) = days_before_year y + 365 + (if is_leap y then 1 else 0)"
proof -
  have d4: "y div 4 - (y - 1) div 4 = (if y mod 4 = 0 then 1 else 0)"
    by (rule div_step) simp
  have d100: "y div 100 - (y - 1) div 100 = (if y mod 100 = 0 then 1 else 0)"
    by (rule div_step) simp
  have d400: "y div 400 - (y - 1) div 400 = (if y mod 400 = 0 then 1 else 0)"
    by (rule div_step) simp
  have a: "y mod 400 = 0 \<Longrightarrow> y mod 100 = 0"
    using mod_mod_cancel[of 100 400 y] by simp
  have b: "y mod 100 = 0 \<Longrightarrow> y mod 4 = 0"
    using mod_mod_cancel[of 4 100 y] by simp
  have "days_before_year (y + 1) - days_before_year y =
      365 + (y div 4 - (y - 1) div 4) - (y div 100 - (y - 1) div 100)
        + (y div 400 - (y - 1) div 400)"
    by (simp add: days_before_year_def algebra_simps)
  also have "\<dots> = 365 + (if is_leap y then 1 else 0)"
  proof (cases "y mod 400 = 0")
    case True
    with a b show ?thesis unfolding d4 d100 d400 by (simp add: is_leap_def)
  next
    case n400: False
    show ?thesis
    proof (cases "y mod 100 = 0")
      case True
      with n400 b show ?thesis unfolding d4 d100 d400 by (simp add: is_leap_def)
    next
      case False
      with n400 show ?thesis unfolding d4 d100 d400 by (simp add: is_leap_def)
    qed
  qed
  finally show ?thesis by simp
qed

lemma month_step:
  assumes "1 \<le> m" "m < 12"
  shows "days_before_month y (m + 1) = days_before_month y m + days_in_month y m"
proof -
  from assms have "m = 1 \<or> m = 2 \<or> m = 3 \<or> m = 4 \<or> m = 5 \<or> m = 6 \<or> m = 7 \<or> m = 8 \<or> m = 9
      \<or> m = 10 \<or> m = 11" by arith
  then show ?thesis
    by (elim disjE) (simp_all add: days_before_month_def days_in_month_def)
qed

lemma next_day_later:
  assumes v: "valid_datetime c" and n: "next_day c = Inr r"
  shows "days_later c 1 r"
proof (cases "day c < days_in_month (year c) (month c)")
  case True
  with n have "r = c\<lparr>day := day c + 1\<rparr>" by (simp add: next_day_def)
  with v True show ?thesis
    by (simp add: days_later_def valid_datetime_def toordinal_def)
next
  case False
  have "day c \<le> days_in_month (year c) (month c)"
    using v by (simp add: valid_datetime_def)
  with False have last: "day c = days_in_month (year c) (month c)" by simp
  show ?thesis
  proof (cases "month c < 12")
    case True
    with n False have r: "r = c\<lparr>month := month c + 1, day := 1\<rparr>"
      by (simp add: next_day_def)
    have m1: "1 \<le> month c" using v by (simp add: valid_datetime_def)
    have ge: "1 \<le> days_in_month (year c) (month c + 1)"
      using days_in_month_ge[of "year c" "month c + 1"] by simp
    have ord: "toordinal r = toordinal c + 1"
      using month_step[OF m1 True, of "year c"] last by (simp add: r toordinal_def)
    have "valid_datetime r"
      using v True ge by (simp add: r valid_datetime_def)
    with ord show ?thesis by (simp add: days_later_def r)
  next
    case nm: False
    have "month c \<le> 12" using v by (simp add: valid_datetime_def)
    with nm have m: "month c = 12" by simp
    have d: "day c = 31" using last m by (simp add: days_in_month_def)
    show ?thesis
    proof (cases "year c < 9999")
      case True
      with n False nm have r: "r = c\<lparr>year := year c + 1, month := 1, day := 1\<rparr>"
        by (simp add: next_day_def)
      have "days_before_month (year c) 12 = 334 + (if is_leap (year c) then 1 else 0)"
        by (simp add: days_before_month_def)
      moreover have "days_before_month (year c + 1) 1 = 0"
        by (simp add: days_before_month_def)
      ultimately have ord: "toordinal r = toordinal c + 1"
        using year_step[of "year c"] m d by (simp add: r toordinal_def)
      have "valid_datetime r"
        using v True by (simp add: r valid_datetime_def days_in_month_def)
      with ord show ?thesis by (simp add: days_later_def r)
    next
      case False
      with n nm \<open>\<not> day c < days_in_month (year c) (month c)\<close> show ?thesis
        by (simp add: next_day_def)
    qed
  qed
qed

lemma next_day_exists:
  assumes v: "valid_datetime c" and b: "toordinal c < toordinal last_day"
  shows "\<exists>r. next_day c = Inr r"
proof (rule ccontr)
  assume "\<not> (\<exists>r. next_day c = Inr r)"
  then have "\<not> day c < days_in_month (year c) (month c)" "\<not> month c < 12" "\<not> year c < 9999"
    by (auto simp: next_day_def split: if_splits)
  with v have "year c = 9999" "month c = 12" "day c = 31"
    by (auto simp: valid_datetime_def days_in_month_def)
  then have "toordinal c = toordinal last_day"
    by (simp add: toordinal_def last_day_def)
  with b show False by simp
qed

lemma days_later_valid: "days_later c n r \<Longrightarrow> valid_datetime r"
  by (simp add: days_later_def)

lemma days_later_trans: "days_later a m b \<Longrightarrow> days_later b n c \<Longrightarrow> days_later a (m + n) c"
  by (simp add: days_later_def)

lemma plus_days_later:
  "valid_datetime c \<Longrightarrow> plus_days c n = Inr r \<Longrightarrow> days_later c (int n) r"
proof (induction n arbitrary: c)
  case 0
  then show ?case by (simp add: days_later_def)
next
  case (Suc n)
  from Suc.prems(2) obtain c' where c': "next_day c = Inr c'" "plus_days c' n = Inr r"
    by (auto split: sum.splits)
  have one: "days_later c 1 c'" by (rule next_day_later[OF Suc.prems(1) c'(1)])
  have "days_later c' (int n) r"
    by (rule Suc.IH[OF days_later_valid[OF one] c'(2)])
  with one have "days_later c (1 + int n) r" by (rule days_later_trans)
  then show ?case by simp
qed

lemma plus_days_exists:
  "valid_datetime c \<Longrightarrow> toordinal c + int n \<le> toordinal last_day \<Longrightarrow> \<exists>r. plus_days c n = Inr r"
proof (induction n arbitrary: c)
  case 0
  then show ?case by simp
next
  case (Suc n)
  from Suc.prems have "toordinal c < toordinal last_day" by simp
  from next_day_exists[OF Suc.prems(1) this] obtain c' where c': "next_day c = Inr c'" by blast
  have one: "days_later c 1 c'" by (rule next_day_later[OF Suc.prems(1) c'])
  then have "toordinal c' + int n \<le> toordinal last_day"
    using Suc.prems(2) by (simp add: days_later_def)
  from Suc.IH[OF days_later_valid[OF one] this] c' show ?case by simp
qed

lemma plus_days_moves:
  assumes "valid_datetime c" and "toordinal c + int n \<le> toordinal last_day"
  shows "\<exists>r. caught (plus_days c n) = Some r \<and> days_later c (int n) r"
proof -
  from plus_days_exists[OF assms] obtain r where r: "plus_days c n = Inr r" by blast
  from plus_days_later[OF assms(1) r] r show ?thesis by (simp add: caught_def)
qed

text \<open>
  The day number determines the date: two dates of the calendar with one number are the
  same, so \<open>days_later\<close> holds of one date at most.
\<close>

lemma year_mono:
  assumes "y \<le> y'"
  shows "days_before_year y + 365 * (y' - y) \<le> days_before_year y'"
  using assms
proof (induction y' rule: int_ge_induct)
  case base
  then show ?case by simp
next
  case (step i)
  have "days_before_year i + 365 \<le> days_before_year (i + 1)"
    by (simp add: year_step)
  with step.IH show ?case by (simp add: algebra_simps)
qed

lemma month_cases:
  assumes "1 \<le> m" "m \<le> 12"
  shows "m = 1 \<or> m = 2 \<or> m = 3 \<or> m = 4 \<or> m = 5 \<or> m = 6 \<or> m = 7 \<or> m = 8 \<or> m = 9
      \<or> m = 10 \<or> m = 11 \<or> m = (12::int)"
  using assms by arith

lemma year_length:
  assumes "1 \<le> m" "m \<le> 12"
  shows "days_before_month y m + days_in_month y m \<le> 365 + (if is_leap y then 1 else 0)"
  using month_cases[OF assms]
  by (elim disjE) (simp_all add: days_before_month_def days_in_month_def)

lemma month_mono:
  assumes "1 \<le> m" "m < m'" "m' \<le> 12"
  shows "days_before_month y m + days_in_month y m \<le> days_before_month y m'"
proof -
  have a: "1 \<le> m'" "m \<le> 12" using assms by simp_all
  from month_cases[OF assms(1) a(2)] month_cases[OF a(1) assms(3)] assms(2) show ?thesis
    by (elim disjE) (simp_all add: days_before_month_def days_in_month_def)
qed

lemma month_nonneg:
  assumes "1 \<le> m" "m \<le> 12"
  shows "0 \<le> days_before_month y m"
  using month_cases[OF assms]
  by (elim disjE) (simp_all add: days_before_month_def)

lemma toordinal_year:
  assumes a: "valid_datetime a" and b: "valid_datetime b" and lt: "year a < year b"
  shows "toordinal a < toordinal b"
proof -
  have va: "1 \<le> month a" "month a \<le> 12" "day a \<le> days_in_month (year a) (month a)"
    using a by (simp_all add: valid_datetime_def)
  have vb: "1 \<le> month b" "month b \<le> 12" "1 \<le> day b"
    using b by (simp_all add: valid_datetime_def)
  have "toordinal a \<le> days_before_year (year a) + 365 + (if is_leap (year a) then 1 else 0)"
    using year_length[OF va(1,2), of "year a"] va(3) by (simp add: toordinal_def)
  also have "\<dots> = days_before_year (year a + 1)" by (simp add: year_step)
  also have "\<dots> \<le> days_before_year (year b)"
    using year_mono[of "year a + 1" "year b"] lt by simp
  also have "\<dots> < toordinal b"
    using month_nonneg[OF vb(1,2), of "year b"] vb(3) by (simp add: toordinal_def)
  finally show ?thesis .
qed

lemma toordinal_month:
  assumes a: "valid_datetime a" and b: "valid_datetime b"
    and y: "year a = year b" and lt: "month a < month b"
  shows "toordinal a < toordinal b"
proof -
  have va: "1 \<le> month a" "day a \<le> days_in_month (year a) (month a)"
    using a by (simp_all add: valid_datetime_def)
  have vb: "month b \<le> 12" "1 \<le> day b"
    using b by (simp_all add: valid_datetime_def)
  from month_mono[OF va(1) lt vb(1), of "year a"] va(2) vb(2) y show ?thesis
    by (simp add: toordinal_def)
qed

lemma toordinal_inj:
  assumes a: "valid_datetime a" and b: "valid_datetime b" and e: "toordinal a = toordinal b"
  shows "year a = year b \<and> month a = month b \<and> day a = day b"
proof -
  have "\<not> year a < year b" "\<not> year b < year a"
    using toordinal_year[OF a b] toordinal_year[OF b a] e by auto
  then have y: "year a = year b" by simp
  have "\<not> month a < month b" "\<not> month b < month a"
    using toordinal_month[OF a b y] toordinal_month[OF b a y[symmetric]] e by auto
  then have m: "month a = month b" by simp
  from e y m have "day a = day b" by (simp add: toordinal_def)
  with y m show ?thesis by simp
qed

lemma days_later_unique:
  assumes "days_later c n r" "days_later c n r'"
  shows "r = r'"
proof -
  have v: "valid_datetime r" "valid_datetime r'" "toordinal r = toordinal r'"
    using assms by (simp_all add: days_later_def)
  from toordinal_inj[OF v] assms show ?thesis
    by (simp add: days_later_def datetime.equality)
qed

text \<open>
  C5. For a completion instant \<open>c\<close> and a pattern that reads daily, weekly, monthly or
  yearly in any letter case, \<open>calculate_next_occurrence\<close> answers the date 1 day after
  \<open>c\<close>, 7 days after \<open>c\<close> (\<open>days_later\<close>: by the count of the days of the calendar, at
  the same time of day; there is one such date), \<open>c\<close> moved by 1 calendar month or by 12, the day clamped to the
  last day of the resulting month under the Gregorian leap rule (\<open>days_in_month\<close>), as
  long as the result is a date up to the end of the year 9999. January 31 monthly gives
  February 28, or 29 in a leap year; February 29 yearly gives February 28 of the next
  year.
\<close>

theorem next_occurrence_rule:
  assumes "valid_datetime c"
    and "td_completed_at td = Some (Instant c)"
    and "td_recurrence_pattern td = Some p"
  shows
    "(lower p = ''daily'' \<and> toordinal c + 1 \<le> toordinal last_day \<longrightarrow>
        (\<exists>r. fst (calculate_next_occurrence env td w) = Some r \<and> days_later c 1 r)) \<and>
     (lower p = ''weekly'' \<and> toordinal c + 7 \<le> toordinal last_day \<longrightarrow>
        (\<exists>r. fst (calculate_next_occurrence env td w) = Some r \<and> days_later c 7 r)) \<and>
     (lower p = ''monthly'' \<and> (year c < 9999 \<or> month c < 12) \<longrightarrow>
        (\<exists>r. fst (calculate_next_occurrence env td w) = Some r \<and> moved_by_months c 1 r)) \<and>
     (lower p = ''yearly'' \<and> year c < 9999 \<longrightarrow>
        (\<exists>r. fst (calculate_next_occurrence env td w) = Some r \<and> moved_by_months c 12 r)) \<and>
     (lower p = ''monthly'' \<and> month c = 1 \<and> day c = 31 \<longrightarrow>
        fst (calculate_next_occurrence env td w) =
          Some (c\<lparr>month := 2, day := if is_leap (year c) then 29 else 28\<rparr>)) \<and>
     (lower p = ''yearly'' \<and> month c = 2 \<and> day c = 29 \<and> year c < 9999 \<longrightarrow>
        fst (calculate_next_occurrence env td w) = Some (c\<lparr>year := year c + 1, day := 28\<rparr>))"
proof -
  note cv = calc_value[OF assms(2,3), of env w]
  have daily: "lower p = ''daily'' \<and> toordinal c + 1 \<le> toordinal last_day \<longrightarrow>
      (\<exists>r. fst (calculate_next_occurrence env td w) = Some r \<and> days_later c 1 r)"
  proof
    assume a: "lower p = ''daily'' \<and> toordinal c + 1 \<le> toordinal last_day"
    then have "toordinal c + int 1 \<le> toordinal last_day" by simp
    from plus_days_moves[OF assms(1) this] a
    show "\<exists>r. fst (calculate_next_occurrence env td w) = Some r \<and> days_later c 1 r"
      by (simp add: cv)
  qed
  have weekly: "lower p = ''weekly'' \<and> toordinal c + 7 \<le> toordinal last_day \<longrightarrow>
      (\<exists>r. fst (calculate_next_occurrence env td w) = Some r \<and> days_later c 7 r)"
  proof
    assume a: "lower p = ''weekly'' \<and> toordinal c + 7 \<le> toordinal last_day"
    then have "toordinal c + int 7 \<le> toordinal last_day" by simp
    from plus_days_moves[OF assms(1) this] a
    show "\<exists>r. fst (calculate_next_occurrence env td w) = Some r \<and> days_later c 7 r"
      by (simp add: cv)
  qed
  have monthly: "lower p = ''monthly'' \<and> (year c < 9999 \<or> month c < 12) \<longrightarrow>
      (\<exists>r. fst (calculate_next_occurrence env td w) = Some r \<and> moved_by_months c 1 r)"
  proof
    assume a: "lower p = ''monthly'' \<and> (year c < 9999 \<or> month c < 12)"
    then have "year c * 12 + (month c - 1) + 1 < 10000 * 12"
      using assms(1) by (auto simp: valid_datetime_def)
    from add_months_moves[OF assms(1) _ this] obtain r
      where "add_months c 1 = Inr r" "moved_by_months c 1 r" by auto
    with a show "\<exists>r. fst (calculate_next_occurrence env td w) = Some r \<and> moved_by_months c 1 r"
      by (simp add: cv caught_def)
  qed
  have yearly: "lower p = ''yearly'' \<and> year c < 9999 \<longrightarrow>
      (\<exists>r. fst (calculate_next_occurrence env td w) = Some r \<and> moved_by_months c 12 r)"
  proof
    assume a: "lower p = ''yearly'' \<and> year c < 9999"
    then have "year c * 12 + (month c - 1) + 12 < 10000 * 12"
      using assms(1) by (auto simp: valid_datetime_def)
    from add_months_moves[OF assms(1) _ this] obtain r
      where "add_months c 12 = Inr r" "moved_by_months c 12 r" by auto
    with a show "\<exists>r. fst (calculate_next_occurrence env td w) = Some r \<and> moved_by_months c 12 r"
      by (simp add: cv caught_def)
  qed
  have jan: "lower p = ''monthly'' \<and> month c = 1 \<and> day c = 31 \<longrightarrow>
      fst (calculate_next_occurrence env td w) =
        Some (c\<lparr>month := 2, day := if is_leap (year c) then 29 else 28\<rparr>)"
    using january_31_monthly[OF assms(1)] by (simp add: cv caught_def)
  have feb: "lower p = ''yearly'' \<and> month c = 2 \<and> day c = 29 \<and> year c < 9999 \<longrightarrow>
      fst (calculate_next_occurrence env td w) = Some (c\<lparr>year := year c + 1, day := 28\<rparr>)"
    using february_29_yearly[OF assms(1)] by (simp add: cv caught_def)
  from daily weekly monthly yearly jan feb show ?thesis by blast
qed

lemma lower_daily: "lower ''daily'' = ''daily''"
  by (simp add: lower_def lower_char_def)

lemma lower_weekly: "lower ''Weekly'' = ''weekly''"
  by (simp add: lower_def lower_char_def)

lemma lower_yearly: "lower ''YEARLY'' = ''yearly''"
  by (simp add: lower_def lower_char_def)

theorem next_occurrence_rule_witness:
  "valid_datetime jan31 \<and> lower ''Monthly'' = ''monthly'' \<and>
   fst (calculate_next_occurrence env0 td0 w0) = Some (jan31\<lparr>month := 2, day := 29\<rparr>) \<and>
   fst (calculate_next_occurrence env0 td_daily w0) = Some feb01 \<and>
   toordinal feb01 = toordinal jan31 + 1 \<and>
   fst (calculate_next_occurrence env0 td_weekly w0) = Some feb07 \<and>
   toordinal feb07 = toordinal jan31 + 7 \<and>
   fst (calculate_next_occurrence env0 td_yearly w0) = Some (jan31\<lparr>year := 2025\<rparr>) \<and>
   moved_by_months jan31 12 (jan31\<lparr>year := 2025\<rparr>) \<and>
   valid_datetime feb29 \<and> month feb29 = 2 \<and> day feb29 = 29 \<and>
   fst (calculate_next_occurrence env0 td_leap w0) = Some (feb29\<lparr>year := 2025, day := 28\<rparr>)"
proof -
  have v: "valid_datetime jan31"
    by (simp add: valid_datetime_def jan31_def days_in_month_def)
  have l: "lower ''Monthly'' = ''monthly''"
    by (simp add: lower_def lower_char_def)
  have leap: "is_leap (year jan31)" by (simp add: is_leap_def jan31_def)
  have range: "toordinal jan31 + 1 \<le> toordinal last_day" "toordinal jan31 + 7 \<le> toordinal last_day"
    by (simp_all add: toordinal_def days_before_year_def days_before_month_def jan31_def
        last_day_def is_leap_def)
  have "fst (calculate_next_occurrence env0 td_daily w0) = caught (plus_days jan31 (Suc 0))"
    using calc_value[of td_daily jan31 "''daily''" env0 w0]
    by (simp add: td_daily_def td0_def lower_daily)
  then have d: "fst (calculate_next_occurrence env0 td_daily w0) = Some feb01"
    by (simp add: caught_def next_day_def jan31_def feb01_def days_in_month_def)
  have seven: "(7::nat) = Suc (Suc (Suc (Suc (Suc (Suc (Suc 0))))))" by simp
  have "fst (calculate_next_occurrence env0 td_weekly w0) = caught (plus_days jan31 7)"
    using calc_value[of td_weekly jan31 "''Weekly''" env0 w0]
    by (simp add: td_weekly_def td0_def lower_weekly)
  then have w: "fst (calculate_next_occurrence env0 td_weekly w0) = Some feb07"
    unfolding seven
    by (simp add: caught_def next_day_def jan31_def feb07_def days_in_month_def is_leap_def)
  from next_occurrence_rule[OF v, of td0 "''Monthly''" env0 w0] v l leap
  have m: "fst (calculate_next_occurrence env0 td0 w0) = Some (jan31\<lparr>month := 2, day := 29\<rparr>)"
    by (simp add: td0_def jan31_def)
  from next_occurrence_rule[OF v, of td_daily "''daily''" env0 w0] range d
  have d1: "toordinal feb01 = toordinal jan31 + 1"
    by (simp add: td_daily_def td0_def lower_daily days_later_def)
  from next_occurrence_rule[OF v, of td_weekly "''Weekly''" env0 w0] range w
  have w7: "toordinal feb07 = toordinal jan31 + 7"
    by (simp add: td_weekly_def td0_def lower_weekly days_later_def)
  have "fst (calculate_next_occurrence env0 td_yearly w0) = caught (add_months jan31 12)"
    using calc_value[of td_yearly jan31 "''YEARLY''" env0 w0]
    by (simp add: td_yearly_def td0_def lower_yearly)
  then have y: "fst (calculate_next_occurrence env0 td_yearly w0) = Some (jan31\<lparr>year := 2025\<rparr>)"
    by (simp add: caught_def add_months_def dt_replace_def jan31_def days_in_month_def Let_def)
  from next_occurrence_rule[OF v, of td_yearly "''YEARLY''" env0 w0] y
  have y12: "moved_by_months jan31 12 (jan31\<lparr>year := 2025\<rparr>)"
    by (simp add: td_yearly_def td0_def lower_yearly jan31_def)
  have vf: "valid_datetime feb29" "month feb29 = 2" "day feb29 = 29" "year feb29 = 2024"
    by (simp_all add: valid_datetime_def feb29_def days_in_month_def is_leap_def)
  from next_occurrence_rule[OF vf(1), of td_leap "''yearly''" env0 w0] vf
  have f: "fst (calculate_next_occurrence env0 td_leap w0) = Some (feb29\<lparr>year := 2025, day := 28\<rparr>)"
    by (simp add: td_leap_def lower_def lower_char_def)
  from v l m d d1 w w7 y y12 vf f show ?thesis by simp
qed

subsection \<open>Reminder scheduler\<close>

lemma reminder_check_flag: "checking_reminders (reminder_check l s) = checking_reminders s"
  by (simp add: reminder_check_def Let_def)

lemma reminder_check_never_skips:
  "\<not> checking_reminders s \<Longrightarrow> skipped (reminder_check l s) = skipped s"
  by (simp add: reminder_check_def Let_def)

text \<open>
  C8. The claim fails on the code: \<open>reminder_check\<close> resets the flag in its \<open>finally\<close>
  clause as soon as the scan is scheduled. A second invocation, made while the first scan
  has not finished, finds the flag false, does not skip, and schedules a second scan.
\<close>

theorem second_check_schedules_second_scan:
  "reminder_check True (reminder_check True scheduler0) =
     \<lparr>checking_reminders = False, in_flight = 2, skipped = 0\<rparr>"
  by (simp add: reminder_check_def scheduler0_def Let_def)

subsection \<open>Broadcast\<close>

lemma send_each_registry:
  "send_each broken msg cs m = (rm, m') \<Longrightarrow>
     active_connections m' = active_connections m \<and>
     user_connection_map m' = user_connection_map m \<and>
     rm = filter (\<lambda>c. broken c \<noteq> None) cs"
proof (induction cs arbitrary: m rm m')
  case Nil
  then show ?case by simp
next
  case (Cons c cs)
  show ?case
  proof (cases "broken c")
    case None
    with Cons.prems have
      "send_each broken msg cs (m\<lparr>inbox := (inbox m)(c := inbox m c @ [msg])\<rparr>) = (rm, m')"
      by simp
    from Cons.IH[OF this] None show ?thesis by simp
  next
    case (Some e)
    obtain rm0 m0 where r: "send_each broken msg cs m = (rm0, m0)" by (cases "send_each broken msg cs m")
    with Cons.prems Some have "rm = c # rm0" "m' = m0" by simp_all
    with Cons.IH[OF r] Some show ?thesis by simp
  qed
qed

lemma send_each_inbox:
  "send_each broken msg cs m = (rm, m') \<Longrightarrow> distinct cs \<Longrightarrow>
     inbox m' c = (if c \<in> set cs \<and> broken c = None then inbox m c @ [msg] else inbox m c)"
proof (induction cs arbitrary: m rm m')
  case Nil
  then show ?case by simp
next
  case (Cons a cs)
  from Cons.prems(2) have d: "distinct cs" and na: "a \<notin> set cs" by simp_all
  show ?case
  proof (cases "broken a")
    case None
    with Cons.prems have
      "send_each broken msg cs (m\<lparr>inbox := (inbox m)(a := inbox m a @ [msg])\<rparr>) = (rm, m')"
      by simp
    from Cons.IH[OF this d] None na show ?thesis by auto
  next
    case (Some e)
    obtain rm0 m0 where r: "send_each broken msg cs m = (rm0, m0)" by (cases "send_each broken msg cs m")
    with Cons.prems Some have "m' = m0" by simp
    with Cons.IH[OF r d] Some show ?thesis by auto
  qed
qed

lemma removeAll_empty: "removeAll c xs = [] \<Longrightarrow> set xs - {c} = {}"
  using set_removeAll[of c xs] by simp

lemma disconnect_map:
  assumes "user_connection_map m c = Some u"
  shows "user_connection_map (disconnect c m) = (user_connection_map m)(c := None)"
  using assms by (simp add: disconnect_def Let_def split: option.splits)

lemma disconnect_inbox: "inbox (disconnect c m) = inbox m"
  by (simp add: disconnect_def Let_def split: option.splits)

lemma disconnect_active:
  assumes "user_connection_map m c = Some u"
  shows "set (the_default [] (active_connections (disconnect c m) u)) =
           set (the_default [] (active_connections m u)) - {c}"
proof (cases "active_connections m u")
  case None
  with assms show ?thesis by (simp add: disconnect_def the_default_def)
next
  case (Some cs)
  show ?thesis
  proof (cases "removeAll c cs = []")
    case True
    with assms Some removeAll_empty[OF True] show ?thesis
      by (simp add: disconnect_def the_default_def)
  next
    case False
    with assms Some show ?thesis
      by (simp add: disconnect_def the_default_def)
  qed
qed

lemma disconnect_each_inbox: "inbox (disconnect_each rm m) = inbox m"
  by (induction rm arbitrary: m) (simp_all add: disconnect_inbox)

lemma disconnect_each_map:
  "\<forall>c \<in> set rm. user_connection_map m c = Some u \<Longrightarrow> distinct rm \<Longrightarrow>
     user_connection_map (disconnect_each rm m) c =
       (if c \<in> set rm then None else user_connection_map m c)"
proof (induction rm arbitrary: m)
  case Nil
  then show ?case by simp
next
  case (Cons a rm)
  from Cons.prems have a: "user_connection_map m a = Some u" by simp
  have m1: "user_connection_map (disconnect a m) = (user_connection_map m)(a := None)"
    by (rule disconnect_map[OF a])
  from Cons.prems have p: "\<forall>c \<in> set rm. user_connection_map (disconnect a m) c = Some u"
    by (auto simp: m1)
  from Cons.prems have d: "distinct rm" by simp
  have "user_connection_map (disconnect_each rm (disconnect a m)) c =
       (if c \<in> set rm then None else user_connection_map (disconnect a m) c)"
    by (rule Cons.IH[OF p d])
  then show ?case by (simp add: m1)
qed

lemma disconnect_each_active:
  "\<forall>c \<in> set rm. user_connection_map m c = Some u \<Longrightarrow> distinct rm \<Longrightarrow>
     set (the_default [] (active_connections (disconnect_each rm m) u)) =
       set (the_default [] (active_connections m u)) - set rm"
proof (induction rm arbitrary: m)
  case Nil
  then show ?case by simp
next
  case (Cons a rm)
  from Cons.prems have a: "user_connection_map m a = Some u" by simp
  have m1: "user_connection_map (disconnect a m) = (user_connection_map m)(a := None)"
    by (rule disconnect_map[OF a])
  from Cons.prems have p: "\<forall>c \<in> set rm. user_connection_map (disconnect a m) c = Some u"
    by (auto simp: m1)
  from Cons.prems have d: "distinct rm" by simp
  have "set (the_default [] (active_connections (disconnect_each rm (disconnect a m)) u)) =
       set (the_default [] (active_connections (disconnect a m) u)) - set rm"
    by (rule Cons.IH[OF p d])
  then show ?case by (auto simp: disconnect_active[OF a])
qed

lemma consistent_init: "consistent manager0"
  by (simp add: consistent_def manager0_def)

lemma consistent_connect:
  assumes "consistent m" and "user_connection_map m c = None"
  shows "consistent (connect c u m)"
proof -
  have fresh: "c \<notin> set cs" if "active_connections m u' = Some cs" for u' cs
    using assms that by (auto simp: consistent_def)
  show ?thesis
    unfolding consistent_def
  proof (intro allI impI)
    fix u' cs'
    assume a: "active_connections (connect c u m) u' = Some cs'"
    show "cs' \<noteq> [] \<and> distinct cs' \<and> (\<forall>x \<in> set cs'. user_connection_map (connect c u m) x = Some u')"
    proof (cases "u' = u")
      case True
      show ?thesis
      proof (cases "active_connections m u")
        case None
        with a True show ?thesis by (auto simp: connect_def the_default_def)
      next
        case (Some cs)
        have "c \<notin> set cs" by (rule fresh[OF Some])
        moreover from assms(1) Some have "distinct cs" "\<forall>x \<in> set cs. user_connection_map m x = Some u"
          by (auto simp: consistent_def)
        ultimately show ?thesis using a True Some
          by (auto simp: connect_def the_default_def)
      qed
    next
      case False
      with a have old: "active_connections m u' = Some cs'" by (simp add: connect_def Let_def)
      from assms(1) old have "cs' \<noteq> []" "distinct cs'" "\<forall>x \<in> set cs'. user_connection_map m x = Some u'"
        by (auto simp: consistent_def)
      moreover have "c \<notin> set cs'" by (rule fresh[OF old])
      ultimately show ?thesis by (auto simp: connect_def Let_def)
    qed
  qed
qed

lemma consistent_disconnect:
  assumes "consistent m"
  shows "consistent (disconnect c m)"
proof (cases "user_connection_map m c")
  case None
  with assms show ?thesis by (simp add: disconnect_def)
next
  case (Some u)
  note mp = disconnect_map[OF Some]
  show ?thesis
    unfolding consistent_def
  proof (intro allI impI)
    fix u' cs'
    assume a: "active_connections (disconnect c m) u' = Some cs'"
    show "cs' \<noteq> [] \<and> distinct cs' \<and> (\<forall>x \<in> set cs'. user_connection_map (disconnect c m) x = Some u')"
    proof (cases "u' = u")
      case True
      from a True obtain cs where cs: "active_connections m u = Some cs" "cs' = removeAll c cs"
        "removeAll c cs \<noteq> []"
        using Some by (auto simp: disconnect_def Let_def split: option.splits if_splits)
      from assms cs(1) have "distinct cs" "\<forall>x \<in> set cs. user_connection_map m x = Some u"
        by (auto simp: consistent_def)
      with cs True show ?thesis by (auto simp: mp distinct_removeAll)
    next
      case False
      with a Some have old: "active_connections m u' = Some cs'"
        by (auto simp: disconnect_def Let_def split: option.splits if_splits)
      from assms old have p: "cs' \<noteq> []" "distinct cs'" "\<forall>x \<in> set cs'. user_connection_map m x = Some u'"
        by (auto simp: consistent_def)
      have "c \<notin> set cs'" using p(3) Some False by auto
      with p show ?thesis by (auto simp: mp)
    qed
  qed
qed

lemma consistent_disconnect_each: "consistent m \<Longrightarrow> consistent (disconnect_each rm m)"
  by (induction rm arbitrary: m) (simp_all add: consistent_disconnect)

lemma consistent_broadcast:
  assumes "consistent m"
  shows "consistent (broadcast_to_user broken u msg m)"
proof (cases "active_connections m u")
  case None
  with assms show ?thesis by (simp add: broadcast_to_user_def)
next
  case (Some cs)
  obtain rm m' where s: "send_each broken msg cs m = (rm, m')"
    by (cases "send_each broken msg cs m")
  from send_each_registry[OF s] assms have "consistent m'" by (simp add: consistent_def)
  then show ?thesis using Some s by (simp add: broadcast_to_user_def consistent_disconnect_each)
qed

text \<open>
  C10. In a registry as \<open>websocket_handler\<close> keeps it (\<open>consistent\<close>: it holds at start
  and \<open>connect\<close> of a new connection, \<open>disconnect\<close> and \<open>broadcast_to_user\<close> keep it),
  a broadcast to a user reaches every connection of the user whose \<open>send\<close> does not
  raise, whatever the others do, and leaves it registered; every connection whose
  \<open>send\<close> raises is gone from the user's set and from the backward map afterwards, and
  was sent nothing. The loop runs over the copy taken at the start.
\<close>

theorem broadcast_fan_out:
  assumes "consistent m" and "active_connections m u = Some cs" and "c \<in> set cs"
  shows "(broken c = None \<longrightarrow>
            inbox (broadcast_to_user broken u msg m) c = inbox m c @ [msg] \<and>
            c \<in> set (the_default [] (active_connections (broadcast_to_user broken u msg m) u)) \<and>
            user_connection_map (broadcast_to_user broken u msg m) c = Some u) \<and>
         (broken c \<noteq> None \<longrightarrow>
            c \<notin> set (the_default [] (active_connections (broadcast_to_user broken u msg m) u)) \<and>
            user_connection_map (broadcast_to_user broken u msg m) c = None \<and>
            inbox (broadcast_to_user broken u msg m) c = inbox m c)"
proof -
  from assms(1,2) have d: "distinct cs" and maps: "\<forall>c \<in> set cs. user_connection_map m c = Some u"
    by (auto simp: consistent_def)
  obtain rm m' where s: "send_each broken msg cs m = (rm, m')"
    by (cases "send_each broken msg cs m")
  note reg = send_each_registry[OF s]
  have inb: "inbox m' c = (if broken c = None then inbox m c @ [msg] else inbox m c)"
    using send_each_inbox[OF s d, of c] assms(3) by simp
  have b: "broadcast_to_user broken u msg m = disconnect_each rm m'"
    using assms(2) s by (simp add: broadcast_to_user_def)
  have rm: "set rm = {c \<in> set cs. broken c \<noteq> None}" using reg by auto
  have p: "\<forall>c \<in> set rm. user_connection_map m' c = Some u" using maps reg by auto
  have drm: "distinct rm" using d reg by simp
  have cur: "the_default [] (active_connections m' u) = cs"
    using reg assms(2) by (simp add: the_default_def)
  have cm: "user_connection_map m' c = Some u" using maps assms(3) reg by simp
  have r1: "inbox (disconnect_each rm m') c = inbox m' c"
    by (simp add: disconnect_each_inbox)
  have r2: "user_connection_map (disconnect_each rm m') c = (if c \<in> set rm then None else Some u)"
    using disconnect_each_map[OF p drm, of c] cm by simp
  have r3: "set (the_default [] (active_connections (disconnect_each rm m') u)) = set cs - set rm"
    using disconnect_each_active[OF p drm] cur by simp
  have mem: "c \<in> set rm \<longleftrightarrow> broken c \<noteq> None" using rm assms(3) by simp
  show ?thesis
    unfolding b r1 r2 r3 inb using mem assms(3) by simp
qed

lemma manager2_consistent: "consistent manager2"
  unfolding manager2_def
  by (intro consistent_connect consistent_init) (simp_all add: connect_def manager0_def Let_def)

lemma manager2_alice: "active_connections manager2 ''alice'' = Some [1, 2]"
  by (simp add: manager2_def connect_def manager0_def the_default_def Let_def)

theorem broadcast_fan_out_witness:
  "consistent manager2 \<and> active_connections manager2 ''alice'' = Some [1, 2] \<and>
   broken2 1 = None \<and> broken2 2 = Some ConnectionClosed \<and>
   inbox (broadcast_to_user broken2 ''alice'' ''task_update'' manager2) 1 = [''task_update''] \<and>
   user_connection_map (broadcast_to_user broken2 ''alice'' ''task_update'' manager2) 1 = Some ''alice'' \<and>
   user_connection_map (broadcast_to_user broken2 ''alice'' ''task_update'' manager2) 2 = None \<and>
   2 \<notin> set (the_default []
     (active_connections (broadcast_to_user broken2 ''alice'' ''task_update'' manager2) ''alice''))"
proof -
  have i: "inbox manager2 1 = []"
    by (simp add: manager2_def connect_def manager0_def Let_def)
  have b: "broken2 1 = None" "broken2 2 = Some ConnectionClosed" by (simp_all add: broken2_def)
  from broadcast_fan_out[OF manager2_consistent manager2_alice, of 1 broken2 "''task_update''"]
    broadcast_fan_out[OF manager2_consistent manager2_alice, of 2 broken2 "''task_update''"]
    manager2_consistent manager2_alice i b
  show ?thesis by simp
qed


subsection \<open>Recurrence engine\<close>

lemmas client_defs = now_def get_state_def save_state_def delete_state_def publish_event_def
  issue_def awaited_def

lemma tasks_has_processed: "tasks (snd (has_processed_recurrence env pid w)) = tasks w"
  by (simp add: has_processed_recurrence_def client_defs)

lemma tasks_mark_started: "tasks (snd (mark_recurrence_processing_started env pid w)) = tasks w"
  by (simp add: mark_recurrence_processing_started_def client_defs)

lemma tasks_mark_completed: "tasks (snd (mark_recurrence_processing_completed env pid w)) = tasks w"
  by (simp add: mark_recurrence_processing_completed_def client_defs)

lemma tasks_finish: "tasks (snd (finish env pid r w)) = tasks w"
  by (simp add: finish_def tasks_mark_completed)

lemma tasks_should_stop: "tasks (snd (should_stop_recurrence env td w)) = tasks w"
  by (simp add: should_stop_recurrence_def Let_def client_defs
           split: option.split stamp.split)

lemma tasks_calculate: "tasks (snd (calculate_next_occurrence env td w)) = tasks w"
  by (simp add: calculate_next_occurrence_def Let_def client_defs split: sum.split)

lemma tasks_publish_recurrence:
  "tasks (publish_recurrence_event env u i n p x w) = tasks w"
  by (simp add: publish_recurrence_event_def Let_def client_defs)

lemma create_recurring_task_tasks:
  "tasks (snd (create_recurring_task env td nxt w)) = tasks w \<or>
   (\<exists>nt. tasks (snd (create_recurring_task env td nxt w)) = tasks w @ [nt] \<and>
         carries_over td nxt nt)"
  by (simp add: create_recurring_task_def invoke_create_task_def issue_def Let_def
        carries_over_def split: option.split)

lemma calculate_same:
  "td_completed_at td = Some s \<Longrightarrow>
     fst (calculate_next_occurrence env td w) = fst (calculate_next_occurrence env' td w')"
  by (simp add: calculate_next_occurrence_def Let_def now_def the_default_def split: sum.split)

lemma process_tasks:
  "tasks (snd (process_completed_task env td w)) = tasks w \<or>
   (\<exists>nt nxt w4. tasks (snd (process_completed_task env td w)) = tasks w @ [nt] \<and>
       fst (calculate_next_occurrence env td w4) = Some nxt \<and> carries_over td nxt nt)"
proof -
  define pid where "pid = processing_id_of (td_user_id td) (td_id td) (fst (now env w))"
  define w2 where "w2 = snd (has_processed_recurrence env pid (snd (now env w)))"
  define w3 where "w3 = snd (mark_recurrence_processing_started env pid w2)"
  define w4 where "w4 = snd (should_stop_recurrence env td w3)"
  define w5 where "w5 = snd (calculate_next_occurrence env td w4)"
  have t4: "tasks w4 = tasks w"
    by (simp add: w4_def w3_def w2_def tasks_should_stop tasks_mark_started tasks_has_processed
          now_def)
  have t5: "tasks w5 = tasks w" by (simp add: w5_def tasks_calculate t4)
  have t3: "tasks w3 = tasks w"
    by (simp add: w3_def w2_def tasks_mark_started tasks_has_processed now_def)
  have t2: "tasks w2 = tasks w" by (simp add: w2_def tasks_has_processed now_def)
  show ?thesis
  proof (cases "fst (calculate_next_occurrence env td w4)")
    case None
    then show ?thesis
      unfolding process_completed_task_def Let_def split_beta
        pid_def[symmetric] w2_def[symmetric] w3_def[symmetric] w4_def[symmetric] w5_def[symmetric]
      by (simp add: tasks_finish t2 t3 t4 t5 split: sum.split)
  next
    case (Some nxt)
    from create_recurring_task_tasks[of env td nxt w5]
    have c: "tasks (snd (create_recurring_task env td nxt w5)) = tasks w \<or>
       (\<exists>nt. tasks (snd (create_recurring_task env td nxt w5)) = tasks w @ [nt] \<and>
         carries_over td nxt nt)" by (simp add: t5)
    then show ?thesis
    proof
      assume "tasks (snd (create_recurring_task env td nxt w5)) = tasks w"
      with Some show ?thesis
        unfolding process_completed_task_def Let_def split_beta
          pid_def[symmetric] w2_def[symmetric] w3_def[symmetric] w4_def[symmetric] w5_def[symmetric]
        by (simp add: tasks_finish tasks_publish_recurrence t2 t3 t4 t5
              split: sum.split option.split)
    next
      assume "\<exists>nt. tasks (snd (create_recurring_task env td nxt w5)) = tasks w @ [nt] \<and>
         carries_over td nxt nt"
      then obtain nt where nt: "tasks (snd (create_recurring_task env td nxt w5)) = tasks w @ [nt]"
        "carries_over td nxt nt" by blast
      have ex: "\<exists>nt nxt w4. tasks w @ [nt] = tasks w @ [nt] \<and>
          fst (calculate_next_occurrence env td w4) = Some nxt \<and> carries_over td nxt nt"
        using Some nt(2) by blast
      have ex': "\<exists>nt' nxt w4. nt = nt' \<and>
          fst (calculate_next_occurrence env td w4) = Some nxt \<and> carries_over td nxt nt'"
        using Some nt(2) by blast
      from Some nt(1) ex' show ?thesis
        unfolding process_completed_task_def Let_def split_beta
          pid_def[symmetric] w2_def[symmetric] w3_def[symmetric] w4_def[symmetric] w5_def[symmetric]
        by (simp add: tasks_finish tasks_publish_recurrence t2 t3 t4 t5
              split: sum.split option.split)
    qed
  qed
qed

lemma raises_reliable: "reliable env \<Longrightarrow> raises env c w = False"
  by (simp add: reliable_def raises_def)

lemma not_processed: "fst (has_processed_recurrence env pid w) = False"
  by (simp add: has_processed_recurrence_def client_defs)

lemma calculate_total:
  assumes comp: "td_completed_at td = Some (Instant c)"
    and nxt: "fst (calculate_next_occurrence env td w) = Some nxt"
  shows "calculate_next_occurrence env td w' = (Some nxt, w'\<lparr>ticks := ticks w' + 1\<rparr>)"
proof -
  have "fst (calculate_next_occurrence env td w') = Some nxt"
    using calculate_same[OF comp, of env w' env w] nxt by simp
  moreover have "snd (calculate_next_occurrence env td w') = w'\<lparr>ticks := ticks w' + 1\<rparr>"
    by (simp add: calculate_next_occurrence_def Let_def now_def split: sum.split)
  ultimately show ?thesis by (simp add: prod_eq_iff)
qed

lemma process_recurs:
  assumes rel: "reliable env"
    and pat: "td_recurrence_pattern td = Some p" "RecurrencePattern_of (lower p) = Inr pat"
    and nostop: "td_recurrence_end_date td = Some Malformed \<or>
      (td_recurrence_end_date td = None \<and>
       (td_recurrence_count td = None \<or> (\<exists>n. td_recurrence_count td = Some n \<and> 0 < n)))"
    and comp: "td_completed_at td = Some (Instant c)"
    and nxt: "fst (calculate_next_occurrence env td w) = Some nxt"
    and fields: "td_user_id td = Some u" "td_title td = Some ti" "td_description td = Some de"
    and rep: "dict_get (reply env (length (tasks w)) (built_task td nxt)) ''id'' = Some new_id"
  shows "fst (process_completed_task env td w) = True \<and>
         tasks (snd (process_completed_task env td w)) = tasks w @ [built_task td nxt] \<and>
         published (snd (process_completed_task env td w)) = published w \<and>
         ticks (snd (process_completed_task env td w)) = ticks w + 5 \<and>
         store (snd (process_completed_task env td w))
           (''recurrence_processed:'' @
              processing_id_of (td_user_id td) (td_id td) (clock env (ticks w))) =
           Some (marker ''completed'' (clock env (ticks w + 4)))"
proof -
  have p0: "p \<noteq> []" using pat(2) by (auto simp: RecurrencePattern_of_def lower_def)
  have stop: "\<And>w'. should_stop_recurrence env td w' = (False, w')"
    using nostop by (auto simp: should_stop_recurrence_def Let_def)
  note calc = calculate_total[OF comp nxt]
  have rne: "reply env (length (tasks w)) (built_task td nxt) \<noteq> []"
    using rep by (auto simp: dict_get_def)
  have bt: "\<And>w'. tasks w' = tasks w \<Longrightarrow> create_recurring_task env td nxt w' =
      (Some (reply env (length (tasks w)) (built_task td nxt)),
       issue InvokeMethod (w'\<lparr>tasks := tasks w @ [built_task td nxt]\<rparr>))"
    using fields rel
    by (auto simp: create_recurring_task_def invoke_create_task_def Let_def built_task_def
          raises_reliable the_default_def split: option.split)
  have four: "ticks w + 4 = Suc (Suc (Suc (Suc (ticks w))))" by simp
  show ?thesis
    using pat p0 rep rne
    by (simp add: four process_completed_task_def Let_def stop calc bt finish_def
          has_processed_recurrence_def mark_recurrence_processing_started_def
          mark_recurrence_processing_completed_def publish_recurrence_event_def
          client_defs raises_reliable[OF rel] the_default_def)
qed

lemma process_refused:
  assumes fl: "\<And>n c. fails env n c = (c = InvokeMethod)"
    and pat: "td_recurrence_pattern td = Some p" "RecurrencePattern_of (lower p) = Inr pat"
    and nostop: "td_recurrence_end_date td = Some Malformed"
    and comp: "td_completed_at td = Some (Instant c)"
    and nxt: "fst (calculate_next_occurrence env td w) = Some nxt"
    and fields: "td_user_id td = Some u" "td_title td = Some ti" "td_description td = Some de"
  shows "fst (process_completed_task env td w) = False \<and>
         tasks (snd (process_completed_task env td w)) = tasks w"
proof -
  have p0: "p \<noteq> []" using pat(2) by (auto simp: RecurrencePattern_of_def lower_def)
  have stop: "\<And>w'. should_stop_recurrence env td w' = (False, w')"
    using nostop by (simp add: should_stop_recurrence_def Let_def)
  note calc = calculate_total[OF comp nxt]
  have bt: "\<And>w'. create_recurring_task env td nxt w' = (None, issue InvokeMethod w')"
    using fields
    by (simp add: create_recurring_task_def invoke_create_task_def Let_def raises_def fl
          split: option.split)
  show ?thesis
    using pat p0
    by (simp add: process_completed_task_def Let_def stop calc bt finish_def
          has_processed_recurrence_def mark_recurrence_processing_started_def
          mark_recurrence_processing_completed_def client_defs raises_def fl the_default_def)
qed

lemma finish_records:
  "fst (finish env pid res w) = res \<and>
   (\<exists>cs. calls (snd (finish env pid res w)) = calls w @ cs \<and>
         SaveState (''recurrence_processed:'' @ pid) \<in> set cs) \<and>
   (reliable env \<longrightarrow>
      store (snd (finish env pid res w)) (''recurrence_processed:'' @ pid) =
        Some (marker ''completed'' (clock env (ticks w)))) \<and>
   tasks (snd (finish env pid res w)) = tasks w \<and>
   published (snd (finish env pid res w)) = published w"
  by (simp add: finish_def mark_recurrence_processing_completed_def client_defs
        raises_reliable)

lemma started_world_frame:
  "(\<exists>cs. calls (started_world env td w) = calls w @ cs) \<and>
   tasks (started_world env td w) = tasks w \<and>
   published (started_world env td w) = published w \<and>
   ticks (started_world env td w) = ticks w + 2"
  by (simp add: started_world_def has_processed_recurrence_def
        mark_recurrence_processing_started_def client_defs Let_def)

lemma process_no_pattern:
  assumes "td_recurrence_pattern td = None \<or> td_recurrence_pattern td = Some []"
  shows "process_completed_task env td w =
     finish env (processing_id_of (td_user_id td) (td_id td) (clock env (ticks w))) True
       (started_world env td w)"
proof -
  have fn: "fst (now env w) = clock env (ticks w)" by (simp add: now_def)
  show ?thesis
    unfolding process_completed_task_def started_world_def Let_def split_beta fn
    using assms by (simp add: not_processed)
qed

lemma process_unrecognized:
  assumes "td_recurrence_pattern td = Some p" "p \<noteq> []"
    and "RecurrencePattern_of (lower p) = Inl e"
  shows "process_completed_task env td w =
     finish env (processing_id_of (td_user_id td) (td_id td) (clock env (ticks w))) False
       (started_world env td w)"
proof -
  have fn: "fst (now env w) = clock env (ticks w)" by (simp add: now_def)
  show ?thesis
    unfolding process_completed_task_def started_world_def Let_def split_beta fn
    using assms by (simp add: not_processed the_default_def)
qed

lemma process_ended:
  assumes "td_recurrence_pattern td = Some p" "p \<noteq> []"
    and "RecurrencePattern_of (lower p) = Inr pat"
    and "fst (should_stop_recurrence env td (started_world env td w))"
  shows "process_completed_task env td w =
     finish env (processing_id_of (td_user_id td) (td_id td) (clock env (ticks w))) True
       (snd (should_stop_recurrence env td (started_world env td w)))"
proof -
  have fn: "fst (now env w) = clock env (ticks w)" by (simp add: now_def)
  have st: "fst (should_stop_recurrence env td
      (snd (mark_recurrence_processing_started env
         (processing_id_of (td_user_id td) (td_id td) (clock env (ticks w)))
         (snd (has_processed_recurrence env
            (processing_id_of (td_user_id td) (td_id td) (clock env (ticks w)))
            (snd (now env w)))))))"
    using assms(4) by (simp add: started_world_def Let_def)
  show ?thesis
    unfolding process_completed_task_def started_world_def Let_def split_beta fn
    using assms(1,2,3) st by (simp add: not_processed the_default_def)
qed

lemma should_stop_when_ended:
  assumes "td_recurrence_end_date td \<noteq> Some Malformed"
    and "recurrence_ended td (clock env (ticks w))"
  shows "fst (should_stop_recurrence env td w)"
  using assms
  by (auto simp: should_stop_recurrence_def recurrence_ended_def Let_def now_def
        split: option.split stamp.split)

lemma should_stop_frame:
  "(\<exists>cs. calls (snd (should_stop_recurrence env td w)) = calls w @ cs) \<and>
   tasks (snd (should_stop_recurrence env td w)) = tasks w \<and>
   published (snd (should_stop_recurrence env td w)) = published w"
  by (simp add: should_stop_recurrence_def Let_def now_def split: option.split stamp.split)

lemma finish_after:
  assumes "\<exists>cs. calls w3 = calls w @ cs" "tasks w3 = tasks w" "published w3 = published w"
  shows "records_completed env pid w (snd (finish env pid res w3))"
proof -
  from assms(1) obtain cs where cs: "calls w3 = calls w @ cs" by blast
  from finish_records[of env pid res w3] obtain cs' where
    c: "calls (snd (finish env pid res w3)) = calls w3 @ cs'"
       "SaveState (''recurrence_processed:'' @ pid) \<in> set cs'"
    and r: "reliable env \<longrightarrow> store (snd (finish env pid res w3)) (''recurrence_processed:'' @ pid) =
        Some (marker ''completed'' (clock env (ticks w3)))"
    and t: "tasks (snd (finish env pid res w3)) = tasks w3"
       "published (snd (finish env pid res w3)) = published w3"
    by blast
  have "calls (snd (finish env pid res w3)) = calls w @ (cs @ cs')" using c(1) cs by simp
  moreover have "SaveState (''recurrence_processed:'' @ pid) \<in> set (cs @ cs')" using c(2) by simp
  ultimately have "\<exists>xs. calls (snd (finish env pid res w3)) = calls w @ xs \<and>
      SaveState (''recurrence_processed:'' @ pid) \<in> set xs" by blast
  with r t assms(2,3) show ?thesis
    unfolding records_completed_def by auto
qed

lemma lower_monthly: "lower ''Monthly'' = ''monthly''"
  by (simp add: lower_def lower_char_def)

lemma td0_next: "fst (calculate_next_occurrence env td0 w) = Some feb29"
  by (simp add: calculate_next_occurrence_def td0_def jan31_def feb29_def now_def Let_def
        the_default_def lower_monthly caught_def add_months_def dt_replace_def
        days_in_month_def is_leap_def)

lemma env0_reliable: "reliable env0"
  by (simp add: reliable_def env0_def)

lemma monthly_recognized: "RecurrencePattern_of (lower ''Monthly'') = Inr MONTHLY"
  by (simp add: lower_monthly RecurrencePattern_of_def)

lemma td0_recurs:
  "fst (process_completed_task env0 td0 w) = True \<and>
   tasks (snd (process_completed_task env0 td0 w)) = tasks w @ [built_task td0 feb29] \<and>
   published (snd (process_completed_task env0 td0 w)) = published w \<and>
   ticks (snd (process_completed_task env0 td0 w)) = ticks w + 5 \<and>
   store (snd (process_completed_task env0 td0 w))
     (''recurrence_processed:'' @
        processing_id_of (td_user_id td0) (td_id td0) (clock env0 (ticks w))) =
     Some (marker ''completed'' (clock env0 (ticks w + 4)))"
proof (rule process_recurs[OF env0_reliable])
  show "td_recurrence_pattern td0 = Some ''Monthly''" by (simp add: td0_def)
  show "RecurrencePattern_of (lower ''Monthly'') = Inr MONTHLY" by (rule monthly_recognized)
  show "td_recurrence_end_date td0 = Some Malformed \<or>
      (td_recurrence_end_date td0 = None \<and>
       (td_recurrence_count td0 = None \<or> (\<exists>n. td_recurrence_count td0 = Some n \<and> 0 < n)))"
    by (simp add: td0_def)
  show "td_completed_at td0 = Some (Instant jan31)" by (simp add: td0_def)
  show "fst (calculate_next_occurrence env0 td0 w) = Some feb29" by (rule td0_next)
  show "td_user_id td0 = Some ''alice''" by (simp add: td0_def)
  show "td_title td0 = Some ''Pay rent''" by (simp add: td0_def)
  show "td_description td0 = Some ''monthly rent''" by (simp add: td0_def)
  show "dict_get (reply env0 (length (tasks w)) (built_task td0 feb29)) ''id'' =
      Some (JInt (100 + int (length (tasks w))))"
    by (simp add: env0_def dict_get_def)
qed

lemma td_malformed_next: "fst (calculate_next_occurrence env td_malformed w) = Some feb29"
  by (simp add: calculate_next_occurrence_def td_malformed_def td0_def jan31_def feb29_def
        now_def Let_def the_default_def lower_monthly caught_def add_months_def dt_replace_def
        days_in_month_def is_leap_def)

lemma td_malformed_recurs:
  "fst (process_completed_task env0 td_malformed w) = True \<and>
   tasks (snd (process_completed_task env0 td_malformed w)) =
     tasks w @ [built_task td_malformed feb29]"
proof -
  have "fst (process_completed_task env0 td_malformed w) = True \<and>
     tasks (snd (process_completed_task env0 td_malformed w)) =
       tasks w @ [built_task td_malformed feb29] \<and>
     published (snd (process_completed_task env0 td_malformed w)) = published w \<and>
     ticks (snd (process_completed_task env0 td_malformed w)) = ticks w + 5 \<and>
     store (snd (process_completed_task env0 td_malformed w))
       (''recurrence_processed:'' @
          processing_id_of (td_user_id td_malformed) (td_id td_malformed)
            (clock env0 (ticks w))) =
       Some (marker ''completed'' (clock env0 (ticks w + 4)))"
  proof (rule process_recurs[OF env0_reliable])
    show "td_recurrence_pattern td_malformed = Some ''Monthly''"
      by (simp add: td_malformed_def td0_def)
    show "RecurrencePattern_of (lower ''Monthly'') = Inr MONTHLY" by (rule monthly_recognized)
    show "td_recurrence_end_date td_malformed = Some Malformed \<or>
        (td_recurrence_end_date td_malformed = None \<and>
         (td_recurrence_count td_malformed = None \<or>
          (\<exists>n. td_recurrence_count td_malformed = Some n \<and> 0 < n)))"
      by (simp add: td_malformed_def)
    show "td_completed_at td_malformed = Some (Instant jan31)"
      by (simp add: td_malformed_def td0_def)
    show "fst (calculate_next_occurrence env0 td_malformed w) = Some feb29"
      by (rule td_malformed_next)
    show "td_user_id td_malformed = Some ''alice''" by (simp add: td_malformed_def td0_def)
    show "td_title td_malformed = Some ''Pay rent''" by (simp add: td_malformed_def td0_def)
    show "td_description td_malformed = Some ''monthly rent''"
      by (simp add: td_malformed_def td0_def)
    show "dict_get (reply env0 (length (tasks w)) (built_task td_malformed feb29)) ''id'' =
        Some (JInt (100 + int (length (tasks w))))"
      by (simp add: env0_def dict_get_def)
  qed
  then show ?thesis by simp
qed

lemma td_malformed_refused:
  "fst (process_completed_task env_refuse td_malformed w) = False \<and>
   tasks (snd (process_completed_task env_refuse td_malformed w)) = tasks w"
proof (rule process_refused)
  show "\<And>n c. fails env_refuse n c = (c = InvokeMethod)" by (simp add: env_refuse_def)
  show "td_recurrence_pattern td_malformed = Some ''Monthly''"
    by (simp add: td_malformed_def td0_def)
  show "RecurrencePattern_of (lower ''Monthly'') = Inr MONTHLY" by (rule monthly_recognized)
  show "td_recurrence_end_date td_malformed = Some Malformed" by (simp add: td_malformed_def)
  show "td_completed_at td_malformed = Some (Instant jan31)"
    by (simp add: td_malformed_def td0_def)
  show "fst (calculate_next_occurrence env_refuse td_malformed w) = Some feb29"
    by (rule td_malformed_next)
  show "td_user_id td_malformed = Some ''alice''" by (simp add: td_malformed_def td0_def)
  show "td_title td_malformed = Some ''Pay rent''" by (simp add: td_malformed_def td0_def)
  show "td_description td_malformed = Some ''monthly rent''"
    by (simp add: td_malformed_def td0_def)
qed

lemma id_first: "processing_id_of (td_user_id td0) (td_id td0) (clock env0 0) =
    ''recurrence_alice_7_20240301090000000000''"
  by code_simp

lemma id_second: "processing_id_of (td_user_id td0) (td_id td0) (clock env0 5) =
    ''recurrence_alice_7_20240301090000000005''"
  by code_simp

lemma w0_empty: "store w0 k = None" "ticks w0 = 0" "tasks w0 = []" "published w0 = []"
  "calls w0 = []" "sent w0 = []"
  by (simp_all add: w0_def)

lemma ids_differ:
  "processing_id_of (td_user_id td0) (td_id td0) (clock env0 0) \<noteq>
   processing_id_of (td_user_id td0) (td_id td0) (clock env0 5)"
  unfolding id_first id_second by simp

lemma lower_fortnightly: "lower ''fortnightly'' = ''fortnightly''"
  by (simp add: lower_def lower_char_def)

text \<open>
  C1. The claim fails on the code. The identity is formatted from the clock at the time
  of handling, not from the completion event: the same event handled twice, five clock
  readings apart, gets two identities. Both times it is recurred, so two tasks result,
  and no audit event: the client refuses the dict it is handed. The completed marker of
  the first handling is in the store when the second starts, and
  \<open>has_processed_recurrence\<close> answers \<open>False\<close> for its identity too, since the \<open>await\<close>
  of the read raises.
\<close>

theorem retried_delivery_recurs_again:
  "processing_id_of (td_user_id td0) (td_id td0) (clock env0 0) \<noteq>
     processing_id_of (td_user_id td0) (td_id td0) (clock env0 5) \<and>
   fst (process_completed_task env0 td0 w0) = True \<and>
   ticks (snd (process_completed_task env0 td0 w0)) = 5 \<and>
   store (snd (process_completed_task env0 td0 w0))
     (''recurrence_processed:'' @ processing_id_of (td_user_id td0) (td_id td0) (clock env0 0)) =
     Some (marker ''completed'' (clock env0 4)) \<and>
   fst (has_processed_recurrence env0
          (processing_id_of (td_user_id td0) (td_id td0) (clock env0 0))
          (snd (process_completed_task env0 td0 w0))) = False \<and>
   fst (process_completed_task env0 td0 (snd (process_completed_task env0 td0 w0))) = True \<and>
   tasks (snd (process_completed_task env0 td0 (snd (process_completed_task env0 td0 w0)))) =
     [built_task td0 feb29, built_task td0 feb29] \<and>
   published (snd (process_completed_task env0 td0 (snd (process_completed_task env0 td0 w0)))) =
     []"
proof -
  define w1 where "w1 = snd (process_completed_task env0 td0 w0)"
  have first: "fst (process_completed_task env0 td0 w0) = True"
    "tasks w1 = [built_task td0 feb29]" "published w1 = []" "ticks w1 = 5"
    "store w1 (''recurrence_processed:'' @
        processing_id_of (td_user_id td0) (td_id td0) (clock env0 0)) =
      Some (marker ''completed'' (clock env0 4))"
    using td0_recurs[of w0] by (simp_all add: w0_empty w1_def)
  from td0_recurs[of w1] first ids_differ not_processed[of env0 _ w1] show ?thesis
    unfolding w1_def[symmetric] by simp
qed

text \<open>
  C6. The claim fails on the code for an event whose counter is zero and whose end date
  is not an ISO date: parsing the end date raises inside \<open>should_stop_recurrence\<close>, which
  then answers \<open>False\<close> without looking at the counter. The event is handled as a
  recurring one: a task with the counter -1 is created and success returned, and when the
  task service refuses the call no task is created and failure is returned.
\<close>

theorem unparsable_end_date_recurs:
  "td_recurrence_pattern td_malformed = Some ''Monthly'' \<and>
   RecurrencePattern_of (lower ''Monthly'') = Inr MONTHLY \<and>
   td_recurrence_count td_malformed = Some 0 \<and>
   td_recurrence_end_date td_malformed = Some Malformed \<and>
   fst (should_stop_recurrence env0 td_malformed w0) = False \<and>
   fst (process_completed_task env0 td_malformed w0) = True \<and>
   tasks (snd (process_completed_task env0 td_malformed w0)) = [built_task td_malformed feb29] \<and>
   nt_recurrence_count (built_task td_malformed feb29) = Some (- 1) \<and>
   fst (process_completed_task env_refuse td_malformed w0) = False \<and>
   tasks (snd (process_completed_task env_refuse td_malformed w0)) = []"
  using td_malformed_recurs[of w0] td_malformed_refused[of w0] monthly_recognized
  by (simp add: w0_empty td_malformed_def td0_def built_task_def should_stop_recurrence_def)

text \<open>
  C6, as the code has it. If a completion event has no recurrence pattern (none, or the
  empty string), \<open>process_completed_task\<close> returns success; if its pattern is not one of
  daily, weekly, monthly, yearly, it returns failure; if the pattern is one of them, the
  end date, when there is one, parses, and the termination condition is met when it
  is evaluated (the end instant is reached or passed, or the counter is zero or below), it
  returns success. In all three cases it records the completed marker for the identity
  and adds no task and no event.
\<close>

theorem no_new_task_records_completed:
  "(td_recurrence_pattern td = None \<or> td_recurrence_pattern td = Some [] \<longrightarrow>
      fst (process_completed_task env td w) = True \<and>
      records_completed env (processing_id_of (td_user_id td) (td_id td) (clock env (ticks w)))
        w (snd (process_completed_task env td w))) \<and>
   (\<forall>p. td_recurrence_pattern td = Some p \<and> p \<noteq> [] \<and>
        RecurrencePattern_of (lower p) = Inl ValueError \<longrightarrow>
      fst (process_completed_task env td w) = False \<and>
      records_completed env (processing_id_of (td_user_id td) (td_id td) (clock env (ticks w)))
        w (snd (process_completed_task env td w))) \<and>
   (\<forall>p pat. td_recurrence_pattern td = Some p \<and> RecurrencePattern_of (lower p) = Inr pat \<and>
        td_recurrence_end_date td \<noteq> Some Malformed \<and>
        recurrence_ended td (clock env (ticks w + 2)) \<longrightarrow>
      fst (process_completed_task env td w) = True \<and>
      records_completed env (processing_id_of (td_user_id td) (td_id td) (clock env (ticks w)))
        w (snd (process_completed_task env td w)))"
proof -
  note sw = started_world_frame[of env td w]
  have a: "\<exists>cs. calls (started_world env td w) = calls w @ cs"
    "tasks (started_world env td w) = tasks w" "published (started_world env td w) = published w"
    "ticks (started_world env td w) = ticks w + 2"
    using sw by blast+
  have c1: "td_recurrence_pattern td = None \<or> td_recurrence_pattern td = Some [] \<longrightarrow>
        fst (process_completed_task env td w) = True \<and>
        records_completed env (processing_id_of (td_user_id td) (td_id td) (clock env (ticks w)))
          w (snd (process_completed_task env td w))"
  proof
    assume h: "td_recurrence_pattern td = None \<or> td_recurrence_pattern td = Some []"
    show "fst (process_completed_task env td w) = True \<and>
        records_completed env (processing_id_of (td_user_id td) (td_id td) (clock env (ticks w)))
          w (snd (process_completed_task env td w))"
      unfolding process_no_pattern[OF h]
      using finish_after[OF a(1,2,3)] by (simp add: finish_def)
  qed
  have c2: "\<forall>p. td_recurrence_pattern td = Some p \<and> p \<noteq> [] \<and>
          RecurrencePattern_of (lower p) = Inl ValueError \<longrightarrow>
        fst (process_completed_task env td w) = False \<and>
        records_completed env (processing_id_of (td_user_id td) (td_id td) (clock env (ticks w)))
          w (snd (process_completed_task env td w))"
  proof (intro allI impI)
    fix p
    assume h: "td_recurrence_pattern td = Some p \<and> p \<noteq> [] \<and>
          RecurrencePattern_of (lower p) = Inl ValueError"
    then have h1: "td_recurrence_pattern td = Some p" and h2: "p \<noteq> []"
      and h3: "RecurrencePattern_of (lower p) = Inl ValueError" by simp_all
    show "fst (process_completed_task env td w) = False \<and>
        records_completed env (processing_id_of (td_user_id td) (td_id td) (clock env (ticks w)))
          w (snd (process_completed_task env td w))"
      unfolding process_unrecognized[OF h1 h2 h3]
      using finish_after[OF a(1,2,3)] by (simp add: finish_def)
  qed
  have c3: "\<forall>p pat. td_recurrence_pattern td = Some p \<and> RecurrencePattern_of (lower p) = Inr pat \<and>
          td_recurrence_end_date td \<noteq> Some Malformed \<and>
          recurrence_ended td (clock env (ticks w + 2)) \<longrightarrow>
        fst (process_completed_task env td w) = True \<and>
        records_completed env (processing_id_of (td_user_id td) (td_id td) (clock env (ticks w)))
          w (snd (process_completed_task env td w))"
  proof (intro allI impI)
    fix p pat
    assume h: "td_recurrence_pattern td = Some p \<and> RecurrencePattern_of (lower p) = Inr pat \<and>
          td_recurrence_end_date td \<noteq> Some Malformed \<and>
          recurrence_ended td (clock env (ticks w + 2))"
    then have h1: "td_recurrence_pattern td = Some p"
      and h3: "RecurrencePattern_of (lower p) = Inr pat"
      and iso: "td_recurrence_end_date td \<noteq> Some Malformed"
      and h4: "recurrence_ended td (clock env (ticks w + 2))" by simp_all
    have h2: "p \<noteq> []" using h3 by (auto simp: RecurrencePattern_of_def lower_def)
    have st: "fst (should_stop_recurrence env td (started_world env td w))"
      using should_stop_when_ended[OF iso, of env "started_world env td w"] h4 a(4) by simp
    note sf = should_stop_frame[of env td "started_world env td w"]
    have b: "\<exists>cs. calls (snd (should_stop_recurrence env td (started_world env td w))) = calls w @ cs"
      "tasks (snd (should_stop_recurrence env td (started_world env td w))) = tasks w"
      "published (snd (should_stop_recurrence env td (started_world env td w))) = published w"
      using sf a by auto
    show "fst (process_completed_task env td w) = True \<and>
        records_completed env (processing_id_of (td_user_id td) (td_id td) (clock env (ticks w)))
          w (snd (process_completed_task env td w))"
      unfolding process_ended[OF h1 h2 h3 st]
      using finish_after[OF b] by (simp add: finish_def)
  qed
  from c1 c2 c3 show ?thesis by blast
qed

theorem no_new_task_records_completed_witness:
  "reliable env0 \<and> td_recurrence_pattern td_none = None \<and>
   fst (process_completed_task env0 td_none w0) = True \<and>
   tasks (snd (process_completed_task env0 td_none w0)) = [] \<and>
   SaveState (''recurrence_processed:'' @
       processing_id_of (td_user_id td_none) (td_id td_none) (clock env0 0))
     \<in> set (calls (snd (process_completed_task env0 td_none w0))) \<and>
   store (snd (process_completed_task env0 td_none w0))
     (''recurrence_processed:'' @
        processing_id_of (td_user_id td_none) (td_id td_none) (clock env0 0)) \<noteq> None \<and>
   RecurrencePattern_of (lower ''fortnightly'') = Inl ValueError \<and>
   fst (process_completed_task env0 td_unknown w0) = False \<and>
   tasks (snd (process_completed_task env0 td_unknown w0)) = [] \<and>
   SaveState (''recurrence_processed:'' @
       processing_id_of (td_user_id td_unknown) (td_id td_unknown) (clock env0 0))
     \<in> set (calls (snd (process_completed_task env0 td_unknown w0))) \<and>
   store (snd (process_completed_task env0 td_unknown w0))
     (''recurrence_processed:'' @
        processing_id_of (td_user_id td_unknown) (td_id td_unknown) (clock env0 0)) \<noteq> None \<and>
   RecurrencePattern_of (lower ''Monthly'') = Inr MONTHLY \<and>
   td_recurrence_count td_ended = Some 0 \<and>
   fst (process_completed_task env0 td_ended w0) = True \<and>
   tasks (snd (process_completed_task env0 td_ended w0)) = [] \<and>
   SaveState (''recurrence_processed:'' @
       processing_id_of (td_user_id td_ended) (td_id td_ended) (clock env0 0))
     \<in> set (calls (snd (process_completed_task env0 td_ended w0))) \<and>
   store (snd (process_completed_task env0 td_ended w0))
     (''recurrence_processed:'' @
        processing_id_of (td_user_id td_ended) (td_id td_ended) (clock env0 0)) \<noteq> None"
proof -
  have n: "td_recurrence_pattern td_none = None" by (simp add: td_none_def)
  have p: "td_recurrence_pattern td_unknown = Some ''fortnightly''"
    by (simp add: td_unknown_def)
  have r: "RecurrencePattern_of (lower ''fortnightly'') = Inl ValueError"
    by (simp add: lower_fortnightly RecurrencePattern_of_def)
  have q: "td_recurrence_pattern td_ended = Some ''Monthly''"
    "td_recurrence_end_date td_ended \<noteq> Some Malformed"
    "td_recurrence_count td_ended = Some 0"
    by (simp_all add: td_ended_def td0_def)
  have e: "recurrence_ended td_ended (clock env0 (ticks w0 + 2))"
    by (simp add: recurrence_ended_def q)
  from no_new_task_records_completed[of td_none env0 w0] n
  have m: "fst (process_completed_task env0 td_none w0) = True"
    "records_completed env0
       (processing_id_of (td_user_id td_none) (td_id td_none) (clock env0 (ticks w0)))
       w0 (snd (process_completed_task env0 td_none w0))"
    by simp_all
  from no_new_task_records_completed[of td_unknown env0 w0] p r
  have u: "fst (process_completed_task env0 td_unknown w0) = False"
    "records_completed env0
       (processing_id_of (td_user_id td_unknown) (td_id td_unknown) (clock env0 (ticks w0)))
       w0 (snd (process_completed_task env0 td_unknown w0))"
    by simp_all
  from no_new_task_records_completed[of td_ended env0 w0] q e monthly_recognized
  have v: "fst (process_completed_task env0 td_ended w0) = True"
    "records_completed env0
       (processing_id_of (td_user_id td_ended) (td_id td_ended) (clock env0 (ticks w0)))
       w0 (snd (process_completed_task env0 td_ended w0))"
    by simp_all
  from m(2) u(2) v(2) have "tasks (snd (process_completed_task env0 td_none w0)) = []"
    "SaveState (''recurrence_processed:'' @
       processing_id_of (td_user_id td_none) (td_id td_none) (clock env0 0))
     \<in> set (calls (snd (process_completed_task env0 td_none w0)))"
    "store (snd (process_completed_task env0 td_none w0))
     (''recurrence_processed:'' @
        processing_id_of (td_user_id td_none) (td_id td_none) (clock env0 0)) \<noteq> None"
    "tasks (snd (process_completed_task env0 td_unknown w0)) = []"
    "SaveState (''recurrence_processed:'' @
       processing_id_of (td_user_id td_unknown) (td_id td_unknown) (clock env0 0))
     \<in> set (calls (snd (process_completed_task env0 td_unknown w0)))"
    "store (snd (process_completed_task env0 td_unknown w0))
     (''recurrence_processed:'' @
        processing_id_of (td_user_id td_unknown) (td_id td_unknown) (clock env0 0)) \<noteq> None"
    "tasks (snd (process_completed_task env0 td_ended w0)) = []"
    "SaveState (''recurrence_processed:'' @
       processing_id_of (td_user_id td_ended) (td_id td_ended) (clock env0 0))
     \<in> set (calls (snd (process_completed_task env0 td_ended w0)))"
    "store (snd (process_completed_task env0 td_ended w0))
     (''recurrence_processed:'' @
        processing_id_of (td_user_id td_ended) (td_id td_ended) (clock env0 0)) \<noteq> None"
    using env0_reliable by (auto simp: records_completed_def w0_empty)
  with m(1) u(1) v(1) n r q(3) monthly_recognized env0_reliable show ?thesis by simp
qed

text \<open>
  C7. Whenever \<open>process_completed_task\<close> creates a task, it creates exactly one, and that
  task carries the user, title, description, recurrence pattern and end date of the
  original, its priority and tags (\<open>medium\<close> and no tags when the event has none), the
  computed next occurrence as due date, and the original's counter minus one when the
  original has a counter.
\<close>

theorem new_task_carries_original:
  assumes "tasks (snd (process_completed_task env td w)) \<noteq> tasks w"
  shows "\<exists>nt nxt w4.
           tasks (snd (process_completed_task env td w)) = tasks w @ [nt] \<and>
           fst (calculate_next_occurrence env td w4) = Some nxt \<and>
           (td_completed_at td \<noteq> None \<longrightarrow> fst (calculate_next_occurrence env td w) = Some nxt) \<and>
           carries_over td nxt nt"
proof -
  from process_tasks[of env td w] assms obtain nt nxt w4 where
    h: "tasks (snd (process_completed_task env td w)) = tasks w @ [nt]"
       "fst (calculate_next_occurrence env td w4) = Some nxt" "carries_over td nxt nt"
    by blast
  have "td_completed_at td \<noteq> None \<longrightarrow> fst (calculate_next_occurrence env td w) = Some nxt"
  proof
    assume "td_completed_at td \<noteq> None"
    then obtain s where "td_completed_at td = Some s" by auto
    from calculate_same[OF this, of env w env w4] h(2)
    show "fst (calculate_next_occurrence env td w) = Some nxt" by simp
  qed
  with h show ?thesis by blast
qed

theorem new_task_carries_original_witness:
  "tasks (snd (process_completed_task env0 td0 w0)) \<noteq> tasks w0 \<and>
   tasks (snd (process_completed_task env0 td0 w0)) = [built_task td0 feb29] \<and>
   carries_over td0 feb29 (built_task td0 feb29) \<and>
   td_recurrence_count td0 = Some 1 \<and>
   nt_recurrence_count (built_task td0 feb29) = Some 0"
proof -
  have t: "tasks (snd (process_completed_task env0 td0 w0)) = [built_task td0 feb29]"
    using td0_recurs[of w0] by (simp add: w0_empty)
  then have ne: "tasks (snd (process_completed_task env0 td0 w0)) \<noteq> tasks w0"
    by (simp add: w0_empty)
  have c: "td_completed_at td0 \<noteq> None" by (simp add: td0_def)
  from new_task_carries_original[OF ne] obtain nt nxt where
    "tasks (snd (process_completed_task env0 td0 w0)) = tasks w0 @ [nt]"
    "td_completed_at td0 \<noteq> None \<longrightarrow> fst (calculate_next_occurrence env0 td0 w0) = Some nxt"
    "carries_over td0 nxt nt" by blast
  with t c have "carries_over td0 feb29 (built_task td0 feb29)"
    by (simp add: w0_empty td0_next)
  moreover have "td_recurrence_count td0 = Some 1"
    "nt_recurrence_count (built_task td0 feb29) = Some 0"
    by (simp_all add: td0_def built_task_def)
  ultimately show ?thesis using t ne by simp
qed


subsection \<open>Reminders\<close>

lemma dict_get_set: "dict_get (dict_set d k v) k' = (if k' = k then Some v else dict_get d k')"
  by (induction d) (auto simp: dict_get_def)

lemma dict_set_nonempty: "dict_set d k v \<noteq> []"
  by (cases d) (auto split: if_splits)

text \<open>
  What the \<open>await\<close> of a synchronous call makes of the reminder state: no read comes
  back, so no update is written and nothing is listed; the write of \<open>store_reminder\<close>
  takes effect and is reported as failed, and the indexes are not reached.
\<close>

lemma get_reminder_none: "get_reminder env rid w = (None, issue (GetState rid) w)"
  by (simp add: get_reminder_def get_state_def awaited_def)

lemma update_reminder_never: "update_reminder env rid u w = (False, issue (GetState rid) w)"
  by (simp add: update_reminder_def get_reminder_none)

lemma is_reminder_notified_never:
  "is_reminder_notified env rid w = (JBool False, issue (GetState rid) w)"
  by (simp add: is_reminder_notified_def get_reminder_none found_def)

lemma is_reminder_cancelled_never:
  "is_reminder_cancelled env rid w = (JBool False, issue (GetState rid) w)"
  by (simp add: is_reminder_cancelled_def get_reminder_none found_def)

lemma store_reminder_writes:
  "store_reminder env rid d w =
     (False,
      if fails env (length (calls w)) (SaveState rid)
      then issue (SaveState rid) (w\<lparr>ticks := ticks w + 1\<rparr>)
      else issue (SaveState rid)
             (w\<lparr>ticks := ticks w + 1,
                store := (store w)(rid \<mapsto>
                  SObj (dict_set d ''updated_at'' (JStr (isoformat (clock env (ticks w))))))\<rparr>))"
  by (simp add: store_reminder_def now_def save_state_def awaited_def raises_def issue_def)




text \<open>
  C9, as stated, fails: with a store whose read raises, \<open>get_reminder\<close> returns \<open>None\<close>
  for a reminder that is stored, which is what it returns for one that is not, and
  \<open>is_reminder_notified\<close> answers \<open>False\<close> for a reminder that is notified.
\<close>

theorem failed_read_counterexample:
  "store w_notified ''r1'' = Some (SObj rem_notified) \<and>
   dict_get rem_notified ''notified'' = Some (JBool True) \<and>
   raises env_down (GetState ''r1'') w_notified \<and>
   fst (get_reminder env_down ''r1'' w_notified) = None \<and>
   store w_notified ''r2'' = None \<and>
   fst (get_reminder env0 ''r2'' w_notified) = None \<and>
   fst (is_reminder_notified env_down ''r1'' w_notified) = JBool False"
  by (simp add: get_reminder_none is_reminder_notified_never raises_def
        w_notified_def w0_def env_down_def rem_notified_def dict_get_def)

text \<open>
  C9, amended. \<open>get_reminder\<close> has no outcome of its own for a failed read: when the
  read raises it returns \<open>None\<close>, as it does for a reminder that does not exist, and
  \<open>is_reminder_notified\<close> and \<open>is_reminder_cancelled\<close> then answer \<open>False\<close>.
\<close>

theorem failed_read_reads_as_absent:
  assumes "raises env (GetState reminder_id) w \<or> store w reminder_id = None"
  shows "fst (get_reminder env reminder_id w) = None \<and>
         fst (is_reminder_notified env reminder_id w) = JBool False \<and>
         fst (is_reminder_cancelled env reminder_id w) = JBool False"
  by (simp add: get_reminder_none is_reminder_notified_never is_reminder_cancelled_never)

theorem failed_read_reads_as_absent_witness:
  "raises env_down (GetState ''r1'') w_notified \<and>
   store w_notified ''r1'' = Some (SObj rem_notified) \<and>
   fst (get_reminder env_down ''r1'' w_notified) = None \<and>
   fst (is_reminder_notified env_down ''r1'' w_notified) = JBool False \<and>
   fst (is_reminder_cancelled env_down ''r1'' w_notified) = JBool False"
proof -
  have r: "raises env_down (GetState ''r1'') w_notified"
    by (simp add: raises_def env_down_def)
  have s: "store w_notified ''r1'' = Some (SObj rem_notified)"
    by (simp add: w_notified_def)
  from failed_read_reads_as_absent[of env_down "''r1''" w_notified] r s show ?thesis by simp
qed

text \<open>One run of \<open>reminder_handler\<close> on an accepted event.\<close>

lemma handler_run:
  assumes "accepted e"
  shows "sent (reminder_handler env e w) =
           sent w @ [(the_default [] (re_user_id e), the_default [] (re_task_title e),
                      the_default [] (re_due_date e))]"
    and "ticks (reminder_handler env e w) = ticks w + 4"
    and "store (reminder_handler env e w) =
           (if fails env (length (calls w))
                 (SaveState (reminder_id_of (the_default [] (re_user_id e))
                    (the_default 0 (re_task_id e)) (clock env (ticks w))))
            then store w
            else (store w)
              (reminder_id_of (the_default [] (re_user_id e))
                 (the_default 0 (re_task_id e)) (clock env (ticks w)) \<mapsto>
               SObj (dict_set
                 [(''user_id'', JStr (the_default [] (re_user_id e))),
                  (''task_id'', JInt (the_default 0 (re_task_id e))),
                  (''task_title'', JStr (the_default [] (re_task_title e))),
                  (''due_date'', JStr (the_default [] (re_due_date e))),
                  (''notified'', JBool False),
                  (''event_type'', opt_str (re_event_type e)),
                  (''timestamp'',
                   JStr (the_default (isoformat (clock env (ticks w + 1))) (re_timestamp e))),
                  (''created_at'', JStr (isoformat (clock env (ticks w + 2))))]
                 ''updated_at'' (JStr (isoformat (clock env (ticks w + 3)))))))"
proof -
  have n: "ticks w + 1 = Suc (ticks w)" "ticks w + 2 = Suc (Suc (ticks w))"
    "ticks w + 3 = Suc (Suc (Suc (ticks w)))" by simp_all
  show "sent (reminder_handler env e w) =
           sent w @ [(the_default [] (re_user_id e), the_default [] (re_task_title e),
                      the_default [] (re_due_date e))]"
    using assms
    by (simp add: reminder_handler_def Let_def now_def store_reminder_writes
          is_reminder_notified_never mark_reminder_as_notified_def update_reminder_never
          send_notification_def issue_def)
  show "ticks (reminder_handler env e w) = ticks w + 4"
    using assms
    by (simp add: reminder_handler_def Let_def now_def store_reminder_writes
          is_reminder_notified_never mark_reminder_as_notified_def update_reminder_never
          send_notification_def issue_def)
  show "store (reminder_handler env e w) =
           (if fails env (length (calls w))
                 (SaveState (reminder_id_of (the_default [] (re_user_id e))
                    (the_default 0 (re_task_id e)) (clock env (ticks w))))
            then store w
            else (store w)
              (reminder_id_of (the_default [] (re_user_id e))
                 (the_default 0 (re_task_id e)) (clock env (ticks w)) \<mapsto>
               SObj (dict_set
                 [(''user_id'', JStr (the_default [] (re_user_id e))),
                  (''task_id'', JInt (the_default 0 (re_task_id e))),
                  (''task_title'', JStr (the_default [] (re_task_title e))),
                  (''due_date'', JStr (the_default [] (re_due_date e))),
                  (''notified'', JBool False),
                  (''event_type'', opt_str (re_event_type e)),
                  (''timestamp'',
                   JStr (the_default (isoformat (clock env (ticks w + 1))) (re_timestamp e))),
                  (''created_at'', JStr (isoformat (clock env (ticks w + 2))))]
                 ''updated_at'' (JStr (isoformat (clock env (ticks w + 3)))))))"
    unfolding n using assms
    by (simp add: reminder_handler_def Let_def now_def store_reminder_writes
          is_reminder_notified_never mark_reminder_as_notified_def update_reminder_never
          send_notification_def issue_def)
qed

lemma handler_stored:
  assumes "accepted e"
    and "\<not> fails env (length (calls w))
           (SaveState (reminder_id_of (the_default [] (re_user_id e))
              (the_default 0 (re_task_id e)) (clock env (ticks w))))"
  shows "\<exists>d. stored_reminder (reminder_handler env e w)
               (reminder_id_of (the_default [] (re_user_id e))
                  (the_default 0 (re_task_id e)) (clock env (ticks w))) = Some d \<and>
             dict_get d ''task_id'' = Some (JInt (the_default 0 (re_task_id e))) \<and>
             dict_get d ''notified'' = Some (JBool False) \<and>
             dict_get d ''cancelled'' = None"
  using assms(2)
  by (simp add: handler_run(3)[OF assms(1)] stored_reminder_def dict_get_set)
     (simp add: dict_get_def)

lemma ev0_accepted: "accepted ev0"
  by (simp add: accepted_def ev0_def opt_str_def)

lemma ev0_fields:
  "the_default [] (re_user_id ev0) = ''alice''" "the_default 0 (re_task_id ev0) = 7"
  "the_default [] (re_task_title ev0) = ''Pay rent''"
  "the_default [] (re_due_date ev0) = ''2024-03-01T10:00:00''"
  by (simp_all add: ev0_def the_default_def)

lemma same_second:
  "reminder_id_of u t (clock env0 n) = reminder_id_of u t (clock env0 0)"
  by (simp add: reminder_id_of_def strftime_seconds_def env0_def)

lemma id_alice: "reminder_id_of ''alice'' 7 (clock env0 0) = ''reminder_alice_7_20240301090000''"
  by code_simp

lemma env0_takes: "\<not> fails env0 n c"
  by (simp add: env0_def)

text \<open>
  C4. For every accepted reminder-due event the handler writes the reminder with
  \<open>notified = False\<close> under the identity it derives from the clock (the reminder is in
  the store when the store takes the write), the check \<open>is_reminder_notified\<close> that
  follows answers \<open>False\<close>, as it does for every identity and every store, so the
  "already notified" branch is not taken and the notification is dispatched: on every
  delivery, whatever the store held before and whichever call fails, so also on a
  redelivery of the same event.
\<close>

theorem accepted_event_is_dispatched:
  assumes "accepted e"
  shows "sent (reminder_handler env e w) =
           sent w @ [(the_default [] (re_user_id e), the_default [] (re_task_title e),
                      the_default [] (re_due_date e))] \<and>
         fst (is_reminder_notified env reminder_id w') = JBool False \<and>
         (\<not> fails env (length (calls w))
              (SaveState (reminder_id_of (the_default [] (re_user_id e))
                 (the_default 0 (re_task_id e)) (clock env (ticks w)))) \<longrightarrow>
          (\<exists>d. stored_reminder (reminder_handler env e w)
                  (reminder_id_of (the_default [] (re_user_id e))
                     (the_default 0 (re_task_id e)) (clock env (ticks w))) = Some d \<and>
                dict_get d ''notified'' = Some (JBool False)))"
proof -
  have "\<not> fails env (length (calls w))
              (SaveState (reminder_id_of (the_default [] (re_user_id e))
                 (the_default 0 (re_task_id e)) (clock env (ticks w)))) \<longrightarrow>
          (\<exists>d. stored_reminder (reminder_handler env e w)
                  (reminder_id_of (the_default [] (re_user_id e))
                     (the_default 0 (re_task_id e)) (clock env (ticks w))) = Some d \<and>
                dict_get d ''notified'' = Some (JBool False))"
    using handler_stored[OF assms, of env w] by blast
  with handler_run(1)[OF assms, of env w] show ?thesis
    by (simp add: is_reminder_notified_never)
qed

theorem accepted_event_is_dispatched_witness:
  "accepted ev0 \<and>
   sent (reminder_handler env0 ev0 w0) = [(''alice'', ''Pay rent'', ''2024-03-01T10:00:00'')] \<and>
   reminder_id_of ''alice'' 7 (clock env0 (ticks (reminder_handler env0 ev0 w0))) =
     reminder_id_of ''alice'' 7 (clock env0 (ticks w0)) \<and>
   sent (reminder_handler env0 ev0 (reminder_handler env0 ev0 w0)) =
     [(''alice'', ''Pay rent'', ''2024-03-01T10:00:00''),
      (''alice'', ''Pay rent'', ''2024-03-01T10:00:00'')] \<and>
   sent (reminder_handler env_down ev0 w0) = [(''alice'', ''Pay rent'', ''2024-03-01T10:00:00'')] \<and>
   \<not> fails env0 (length (calls w0)) (SaveState ''reminder_alice_7_20240301090000'') \<and>
   map_option (\<lambda>d. dict_get d ''notified'')
     (stored_reminder (reminder_handler env0 ev0 w0) ''reminder_alice_7_20240301090000'') =
     Some (Some (JBool False))"
proof -
  have i: "reminder_id_of ''alice'' 7 (clock env0 n) = ''reminder_alice_7_20240301090000''" for n
    using same_second[of "''alice''" 7 n] id_alice by simp
  from accepted_event_is_dispatched[OF ev0_accepted, of env0 w0] env0_takes
  have a: "sent (reminder_handler env0 ev0 w0) = [(''alice'', ''Pay rent'', ''2024-03-01T10:00:00'')]"
    "\<exists>d. stored_reminder (reminder_handler env0 ev0 w0) ''reminder_alice_7_20240301090000'' =
        Some d \<and> dict_get d ''notified'' = Some (JBool False)"
    by (simp_all add: ev0_fields w0_empty i)
  from a(2) have st: "map_option (\<lambda>d. dict_get d ''notified'')
     (stored_reminder (reminder_handler env0 ev0 w0) ''reminder_alice_7_20240301090000'') =
     Some (Some (JBool False))" by auto
  from accepted_event_is_dispatched[OF ev0_accepted, of env0 "reminder_handler env0 ev0 w0"] a(1)
  have b: "sent (reminder_handler env0 ev0 (reminder_handler env0 ev0 w0)) =
     [(''alice'', ''Pay rent'', ''2024-03-01T10:00:00''),
      (''alice'', ''Pay rent'', ''2024-03-01T10:00:00'')]"
    by (simp add: ev0_fields)
  from accepted_event_is_dispatched[OF ev0_accepted, of env_down w0]
  have c: "sent (reminder_handler env_down ev0 w0) =
     [(''alice'', ''Pay rent'', ''2024-03-01T10:00:00'')]"
    by (simp add: ev0_fields w0_empty)
  from a(1) b c st ev0_accepted env0_takes i show ?thesis by simp
qed



end
